theory Spec2Isabelle
  imports Main "HOL-Library.Word" "HOL-Library.Sublist"
begin

section \<open>Strings and JavaScript values\<close>

text \<open>
  A JavaScript string is a sequence of UTF-16 code units; \<open>startsWith\<close>, \<open>length\<close> and
  \<open>trim\<close> all work on code units, so a string is a list of 16-bit words. The literals
  of \<open>src/index.ts\<close> that are not ASCII are written by their code units.
\<close>

type_synonym jsstring = "16 word list"

definition ascii :: "string \<Rightarrow> jsstring" where
  "ascii s = map (\<lambda>c. of_nat (of_char c)) s"

text \<open>\<open>String.prototype.startsWith\<close> with the default position 0.\<close>

definition startsWith :: "jsstring \<Rightarrow> jsstring \<Rightarrow> bool" where
  "startsWith s p = (length p \<le> length s \<and> take (length p) s = p)"

text \<open>
  The code units \<open>String.prototype.trim\<close> strips: WhiteSpace (TAB, VT, FF, SP, NBSP, ZWNBSP
  and the other space separators) and LineTerminator (LF, CR, LS, PS).
\<close>

definition isTrimUnit :: "16 word \<Rightarrow> bool" where
  "isTrimUnit c \<longleftrightarrow>
     c \<in> {0x9, 0xA, 0xB, 0xC, 0xD, 0x20, 0xA0, 0x1680, 0x2028, 0x2029, 0x202F, 0x205F,
          0x3000, 0xFEFF}
     \<or> (0x2000 \<le> c \<and> c \<le> 0x200A)"

definition trim :: "jsstring \<Rightarrow> jsstring" where
  "trim s = rev (dropWhile isTrimUnit (rev (dropWhile isTrimUnit s)))"

text \<open>
  The values \<open>JSON.parse\<close> produces, and \<open>undefined\<close> for a property that is absent.
  The program never computes with a JSON number; it only converts one to a string, so
  \<open>JNum\<close> carries the text \<open>Number.prototype.toString\<close> gives for it. \<open>JObj\<close> lists
  the own properties of an object, each key once.
\<close>

datatype jsval =
    JUndefined
  | JNull
  | JBool bool
  | JNum jsstring
  | JStr jsstring
  | JArr "jsval list"
  | JObj "(jsstring \<times> jsval) list"

datatype error =
    TypeError    \<comment> \<open>a property read on \<open>null\<close>/\<open>undefined\<close>, or a failed conversion to a primitive\<close>
  | StoreError   \<comment> \<open>the worldbook store cannot read the named worldbook\<close>
  | SyncError    \<comment> \<open>the \<open>Error\<close> thrown at line 206 of \<open>setBindingEnabled\<close>\<close>

definition nullish :: "jsval \<Rightarrow> bool" where
  "nullish v \<longleftrightarrow> v = JUndefined \<or> v = JNull"

text \<open>
  \<open>v.k\<close>: a \<open>TypeError\<close> on \<open>null\<close> and \<open>undefined\<close>. The keys this program reads
  (\<open>regex_scripts\<close>, \<open>data\<close>, \<open>script_name\<close>, \<open>scriptName\<close>, \<open>name\<close>, \<open>title\<close>) are
  properties of no string, number, boolean or array, so reading them there gives
  \<open>undefined\<close>.
\<close>

definition getProp :: "jsval \<Rightarrow> jsstring \<Rightarrow> error + jsval" where
  "getProp v k =
     (case v of
        JUndefined \<Rightarrow> Inl TypeError
      | JNull \<Rightarrow> Inl TypeError
      | JObj kvs \<Rightarrow> Inr (case map_of kvs k of None \<Rightarrow> JUndefined | Some x \<Rightarrow> x)
      | _ \<Rightarrow> Inr JUndefined)"

text \<open>\<open>v?.k\<close>: \<open>undefined\<close> instead of the \<open>TypeError\<close>.\<close>

definition optProp :: "jsval \<Rightarrow> jsstring \<Rightarrow> jsval" where
  "optProp v k = (case getProp v k of Inl _ \<Rightarrow> JUndefined | Inr x \<Rightarrow> x)"

definition truthy :: "jsval \<Rightarrow> bool" where
  "truthy v =
     (case v of
        JUndefined \<Rightarrow> False
      | JNull \<Rightarrow> False
      | JBool b \<Rightarrow> b
      | JNum s \<Rightarrow> s \<noteq> ascii ''0'' \<and> s \<noteq> ascii ''NaN''
      | JStr s \<Rightarrow> s \<noteq> []
      | JArr _ \<Rightarrow> True
      | JObj _ \<Rightarrow> True)"

text \<open>\<open>typeof v === 'object'\<close>.\<close>

definition typeof_object :: "jsval \<Rightarrow> bool" where
  "typeof_object v = (case v of JNull \<Rightarrow> True | JArr _ \<Rightarrow> True | JObj _ \<Rightarrow> True | _ \<Rightarrow> False)"

text \<open>
  \<open>String(v)\<close>. An array is joined with commas, \<open>null\<close> and \<open>undefined\<close> elements giving
  the empty string. A parsed object prints as \<open>[object Object]\<close>, unless it has an own
  property \<open>toString\<close>: that is a JSON value, not a function, and the conversion to a
  primitive throws.
\<close>

fun js_String :: "jsval \<Rightarrow> error + jsstring"
  and js_join :: "jsval list \<Rightarrow> error + jsstring" where
  "js_String JUndefined = Inr (ascii ''undefined'')"
| "js_String JNull = Inr (ascii ''null'')"
| "js_String (JBool b) = Inr (if b then ascii ''true'' else ascii ''false'')"
| "js_String (JNum s) = Inr s"
| "js_String (JStr s) = Inr s"
| "js_String (JArr xs) = js_join xs"
| "js_String (JObj kvs) =
     (if ascii ''toString'' \<in> fst ` set kvs then Inl TypeError
      else Inr (ascii ''[object Object]''))"
| "js_join [] = Inr []"
| "js_join (x # xs) =
     (case (if nullish x then Inr [] else js_String x) of
        Inl e \<Rightarrow> Inl e
      | Inr s \<Rightarrow>
          (if xs = [] then Inr s
           else (case js_join xs of Inl e \<Rightarrow> Inl e | Inr t \<Rightarrow> Inr (s @ ascii '','' @ t))))"

text \<open>
  The decimal digits of an integer, for the example data: up to \<open>2^53\<close> in magnitude
  they are what \<open>Number.prototype.toString\<close> prints for it.
\<close>

function nat_digits :: "nat \<Rightarrow> jsstring" where
  "nat_digits n =
     (if n < 10 then [of_nat (48 + n)] else nat_digits (n div 10) @ [of_nat (48 + n mod 10)])"
  by pat_completeness auto
termination
  by (relation "measure (\<lambda>n. n)") auto

definition decimal_text :: "int \<Rightarrow> jsstring" where
  "decimal_text i = (if i < 0 then 0x2D # nat_digits (nat (- i)) else nat_digits (nat i))"

section \<open>Data model\<close>

text \<open>\<open>StatusBarBinding\<close> (lines 1-9). A \<open>uid\<close> is an integer-valued \<open>number\<close>.\<close>

record StatusBarBinding =
  id_binding :: jsstring
  label :: jsstring
  worldbook_name :: jsstring
  worldbook_entry_uid :: int
  worldbook_entry_name :: jsstring
  regex_id :: jsstring
  regex_script_name :: jsstring

text \<open>
  The host's \<open>WorldbookEntry\<close> and \<open>TavernRegex\<close>: the fields the program reads or writes,
  and the rest of the object in one opaque field, which the spread \<open>{ ...item, ... }\<close>
  copies.
\<close>

record WorldbookEntry =
  uid :: int
  name_entry :: jsstring
  enabled_entry :: bool
  rest_entry :: jsval

record TavernRegex =
  id_regex :: jsstring
  script_name :: jsstring
  enabled_regex :: bool
  replace_string :: jsstring
  rest_regex :: jsval

text \<open>
  Everything the program reads and writes outside its own locals:
  the worldbook store (a worldbook that cannot be read is \<open>None\<close>), the rule store,
  \<open>settings.bindings\<close>, the log of \<open>saveSettings\<close> calls (latest first), and the
  identifiers \<open>SillyTavern.uuidv4()\<close> will hand out. \<open>number_text\<close> is the text
  \<open>Number.prototype.toString\<close> gives for each integer-valued number, which the template
  literals of lines 480 and 483 print; the program does nothing else with it, so it is
  a parameter.
\<close>

record host =
  worldbooks :: "jsstring \<Rightarrow> WorldbookEntry list option"
  regexes :: "TavernRegex list"
  bindings :: "StatusBarBinding list"
  saves :: "StatusBarBinding list list"
  uuids :: "nat \<Rightarrow> jsstring"
  uuid_count :: nat
  number_text :: "int \<Rightarrow> jsstring"

section \<open>Host interfaces\<close>

text \<open>
  Modelled from the spec: the host functions \<open>getWorldbook\<close>, \<open>updateWorldbookWith\<close>,
  \<open>getTavernRegexes\<close>, \<open>updateTavernRegexesWith\<close> and \<open>saveSettingsDebounced\<close> are
  declared outside \<open>src/\<close>. Section 6 of the spec gives them as read and
  update-by-replacement on a named knowledge collection, which may fail with an I/O
  error, read and update-by-replacement on the rule collection, and a durable save.
  An updater is a closure that also sets local flags; here it returns the new
  collection together with what it left in those locals.
\<close>

definition getWorldbook :: "jsstring \<Rightarrow> host \<Rightarrow> error + WorldbookEntry list" where
  "getWorldbook wb h = (case worldbooks h wb of None \<Rightarrow> Inl StoreError | Some es \<Rightarrow> Inr es)"

definition updateWorldbookWith ::
  "jsstring \<Rightarrow> (WorldbookEntry list \<Rightarrow> WorldbookEntry list \<times> 'a) \<Rightarrow> host \<Rightarrow> (error + 'a) \<times> host" where
  "updateWorldbookWith wb updater h =
     (case getWorldbook wb h of
        Inl e \<Rightarrow> (Inl e, h)
      | Inr es \<Rightarrow>
          (case updater es of
             (es', r) \<Rightarrow> (Inr r, h\<lparr>worldbooks := (worldbooks h)(wb \<mapsto> es')\<rparr>)))"

definition getTavernRegexes :: "host \<Rightarrow> TavernRegex list" where
  "getTavernRegexes h = regexes h"

definition updateTavernRegexesWith ::
  "(TavernRegex list \<Rightarrow> TavernRegex list \<times> 'a) \<Rightarrow> host \<Rightarrow> 'a \<times> host" where
  "updateTavernRegexesWith updater h =
     (case updater (getTavernRegexes h) of (rs', r) \<Rightarrow> (r, h\<lparr>regexes := rs'\<rparr>))"

text \<open>\<open>saveSettings\<close> (lines 39-42).\<close>

definition saveSettings :: "host \<Rightarrow> host" where
  "saveSettings h = h\<lparr>saves := bindings h # saves h\<rparr>"

section \<open>Naming policy\<close>

text \<open>\<open>REGEX_PREFIX\<close> (line 18): an opening bracket, U+72B6, U+6001, U+680F, a closing
  bracket and a space.\<close>

definition REGEX_PREFIX :: jsstring where
  "REGEX_PREFIX = [0x5B, 0x72B6, 0x6001, 0x680F, 0x5D, 0x20]"

text \<open>\<open>ensureRegexPrefix\<close> (lines 44-49).\<close>

definition ensureRegexPrefix :: "jsstring \<Rightarrow> jsstring" where
  "ensureRegexPrefix scriptName =
     (if startsWith scriptName REGEX_PREFIX then scriptName else REGEX_PREFIX @ scriptName)"

text \<open>\<open>getManagedRegexes\<close> (lines 74-76) and \<open>getRegexById\<close> (lines 78-80).\<close>

definition getManagedRegexes :: "host \<Rightarrow> TavernRegex list" where
  "getManagedRegexes h = filter (\<lambda>item. startsWith (script_name item) REGEX_PREFIX) (getTavernRegexes h)"

definition getRegexById :: "jsstring \<Rightarrow> host \<Rightarrow> TavernRegex option" where
  "getRegexById regexId h = find (\<lambda>item. id_regex item = regexId) (getTavernRegexes h)"

section \<open>Import merger\<close>

text \<open>\<open>parseImportedRegexList\<close> (lines 51-65).\<close>

definition parseImportedRegexList :: "jsval \<Rightarrow> jsval list" where
  "parseImportedRegexList payload =
     (case payload of
        JArr xs \<Rightarrow> xs
      | _ \<Rightarrow>
       (case optProp payload (ascii ''regex_scripts'') of
          JArr xs \<Rightarrow> xs
        | _ \<Rightarrow>
         (case optProp (optProp payload (ascii ''data'')) (ascii ''regex_scripts'') of
            JArr xs \<Rightarrow> xs
          | _ \<Rightarrow> if truthy payload \<and> typeof_object payload then [payload] else [])))"

text \<open>
  \<open>getRegexDisplayName\<close> (lines 67-72):
  \<open>String(item.script_name ?? item.scriptName ?? item.name ?? item.title ?? '').trim()\<close>.
  \<open>coalesce\<close> is the chain of \<open>??\<close> over the keys, read left to right.
\<close>

fun coalesce :: "jsval \<Rightarrow> jsstring list \<Rightarrow> error + jsval" where
  "coalesce item [] = Inr (JStr [])"
| "coalesce item (k # ks) =
     (case getProp item k of
        Inl e \<Rightarrow> Inl e
      | Inr v \<Rightarrow> if nullish v then coalesce item ks else Inr v)"

definition getRegexDisplayName :: "jsval \<Rightarrow> error + jsstring" where
  "getRegexDisplayName item =
     (case coalesce item [ascii ''script_name'', ascii ''scriptName'', ascii ''name'', ascii ''title''] of
        Inl e \<Rightarrow> Inl e
      | Inr v \<Rightarrow> (case js_String v of Inl e \<Rightarrow> Inl e | Inr raw \<Rightarrow> Inr (trim raw)))"

text \<open>\<open>list.map(item => getRegexDisplayName(item))\<close>: the first exception ends the map.\<close>

fun map_getRegexDisplayName :: "jsval list \<Rightarrow> error + jsstring list" where
  "map_getRegexDisplayName [] = Inr []"
| "map_getRegexDisplayName (item # items) =
     (case getRegexDisplayName item of
        Inl e \<Rightarrow> Inl e
      | Inr n \<Rightarrow>
          (case map_getRegexDisplayName items of Inl e \<Rightarrow> Inl e | Inr ns \<Rightarrow> Inr (n # ns)))"

text \<open>
  The \<open>try\<close> block of lines 112-123. Its argument is what \<open>JSON.parse(content)\<close> gives,
  \<open>None\<close> when it throws; every exception inside the block leaves the empty list.
\<close>

definition importedNames_of :: "jsval option \<Rightarrow> jsstring list" where
  "importedNames_of parsed =
     (case parsed of
        None \<Rightarrow> []
      | Some payload \<Rightarrow>
          (case map_getRegexDisplayName (parseImportedRegexList payload) of
             Inl _ \<Rightarrow> []
           | Inr names \<Rightarrow> filter (\<lambda>n. length n > 0) names))"

text \<open>
  The updater of lines 131-147: \<open>regexes.map\<close> with the counter \<open>nameIndex\<close> it
  advances at every rule whose id is not in \<open>beforeIds\<close>.
\<close>

fun rename_new :: "jsstring set \<Rightarrow> jsstring list \<Rightarrow> nat \<Rightarrow> TavernRegex list \<Rightarrow> TavernRegex list" where
  "rename_new beforeIds importedNames nameIndex [] = []"
| "rename_new beforeIds importedNames nameIndex (item # items) =
     (if id_regex item \<in> beforeIds then item # rename_new beforeIds importedNames nameIndex items
      else
        item\<lparr>script_name :=
               ensureRegexPrefix
                 (if nameIndex < length importedNames then importedNames ! nameIndex
                  else script_name item)\<rparr>
        # rename_new beforeIds importedNames (nameIndex + 1) items)"

text \<open>
  The file chosen in the panel. \<open>NoFile\<close>: the input holds no file. \<open>UnreadableFile\<close>:
  \<open>file.text()\<close> rejects. Otherwise the content, seen through the two things done with
  it: \<open>JSON.parse(content)\<close>, and the host's \<open>importRawTavernRegex(file.name, content)\<close>.

  Modelled from the spec: \<open>importRawTavernRegex\<close> is declared outside \<open>src/\<close>; section 6
  of the spec gives it as an opaque bulk import that returns a failure indicator. Here
  it is any function from the rule store to its result and the store it leaves.
\<close>

datatype file_input =
    NoFile
  | UnreadableFile
  | FileContent "jsval option" "TavernRegex list \<Rightarrow> bool \<times> TavernRegex list"

text \<open>The four ways \<open>importRegexFromFile\<close> ends: silently at line 98, with the error
  toast of line 106, with the error toast of line 127, with the success toast of line 150
  and the count it shows.\<close>

datatype import_outcome = NoFileSelected | ReadFailed | ImportFailed | Imported nat

text \<open>\<open>importRegexFromFile\<close> (lines 95-151).\<close>

definition importRegexFromFile :: "file_input \<Rightarrow> host \<Rightarrow> import_outcome \<times> host" where
  "importRegexFromFile input h =
     (case input of
        NoFile \<Rightarrow> (NoFileSelected, h)
      | UnreadableFile \<Rightarrow> (ReadFailed, h)
      | FileContent parsed importRawTavernRegex \<Rightarrow>
          (let beforeIds = set (map id_regex (getTavernRegexes h));
               importedNames = importedNames_of parsed
           in case importRawTavernRegex (getTavernRegexes h) of
                (imported, rs) \<Rightarrow>
                  (let h1 = h\<lparr>regexes := rs\<rparr>
                   in if \<not> imported then (ImportFailed, h1)
                      else
                        (case updateTavernRegexesWith
                                (\<lambda>regexes. (rename_new beforeIds importedNames 0 regexes, ())) h1 of
                           (_, h2) \<Rightarrow> (Imported (length (getManagedRegexes h2)), h2)))))"

section \<open>Live-state reconciler\<close>

record live_state =
  worldbook_enabled :: "bool option"
  regex_enabled :: "bool option"

text \<open>\<open>getBindingLiveState\<close> (lines 153-179). The \<open>try\<close> block is the inner \<open>case\<close>, the
  empty \<open>catch\<close> the \<open>Inl\<close> branch around it, which leaves \<open>worldbookEnabled\<close> at \<open>null\<close>.\<close>

definition getBindingLiveState :: "StatusBarBinding \<Rightarrow> host \<Rightarrow> error + live_state" where
  "getBindingLiveState binding h =
     (let worldbookEnabled =
            (case (case getWorldbook (worldbook_name binding) h of
                     Inl e \<Rightarrow> Inl e
                   | Inr worldbook \<Rightarrow>
                       Inr (case find (\<lambda>item. uid item = worldbook_entry_uid binding) worldbook of
                              Some entry \<Rightarrow> Some (enabled_entry entry)
                            | None \<Rightarrow> None)) of
               Inl _ \<Rightarrow> None
             | Inr v \<Rightarrow> v);
          regexEnabled =
            (case getRegexById (regex_id binding) h of
               Some regex \<Rightarrow> Some (enabled_regex regex)
             | None \<Rightarrow> None)
      in Inr \<lparr>worldbook_enabled = worldbookEnabled, regex_enabled = regexEnabled\<rparr>)"

section \<open>Dual-resource toggle\<close>

text \<open>The updater of lines 186-192; the flag is \<open>worldbookMatched\<close>.\<close>

fun toggle_entries :: "int \<Rightarrow> bool \<Rightarrow> WorldbookEntry list \<Rightarrow> bool \<Rightarrow> WorldbookEntry list \<times> bool" where
  "toggle_entries u enabled [] matched = ([], matched)"
| "toggle_entries u enabled (entry # es) matched =
     (if uid entry = u then
        (case toggle_entries u enabled es True of
           (es', m) \<Rightarrow> (entry\<lparr>enabled_entry := enabled\<rparr> # es', m))
      else
        (case toggle_entries u enabled es matched of (es', m) \<Rightarrow> (entry # es', m)))"

text \<open>The updater of lines 196-202; the flag is \<open>regexMatched\<close>.\<close>

fun toggle_regexes :: "jsstring \<Rightarrow> bool \<Rightarrow> TavernRegex list \<Rightarrow> bool \<Rightarrow> TavernRegex list \<times> bool" where
  "toggle_regexes rid enabled [] matched = ([], matched)"
| "toggle_regexes rid enabled (regex # rs) matched =
     (if id_regex regex = rid then
        (case toggle_regexes rid enabled rs True of
           (rs', m) \<Rightarrow>
             (regex\<lparr>enabled_regex := enabled,
                    script_name := ensureRegexPrefix (script_name regex)\<rparr> # rs', m))
      else
        (case toggle_regexes rid enabled rs matched of (rs', m) \<Rightarrow> (regex # rs', m)))"

text \<open>
  Lines 182-203 of \<open>setBindingEnabled\<close>: the two updates, giving
  \<open>(worldbookMatched, regexMatched)\<close>. An exception of the first update leaves the
  function before the second one is issued.
\<close>

definition setBindingEnabled_updates ::
  "StatusBarBinding \<Rightarrow> bool \<Rightarrow> host \<Rightarrow> (error + bool \<times> bool) \<times> host" where
  "setBindingEnabled_updates binding enabled h =
     (case updateWorldbookWith (worldbook_name binding)
             (\<lambda>worldbook. toggle_entries (worldbook_entry_uid binding) enabled worldbook False) h of
        (Inl e, h1) \<Rightarrow> (Inl e, h1)
      | (Inr worldbookMatched, h1) \<Rightarrow>
          (case updateTavernRegexesWith
                  (\<lambda>regexes. toggle_regexes (regex_id binding) enabled regexes False) h1 of
             (regexMatched, h2) \<Rightarrow> (Inr (worldbookMatched, regexMatched), h2)))"

text \<open>\<open>setBindingEnabled\<close> (lines 181-208): the updates, then the check of lines 205-207.\<close>

definition setBindingEnabled :: "StatusBarBinding \<Rightarrow> bool \<Rightarrow> host \<Rightarrow> (error + unit) \<times> host" where
  "setBindingEnabled binding enabled h =
     (case setBindingEnabled_updates binding enabled h of
        (Inl e, h') \<Rightarrow> (Inl e, h')
      | (Inr (worldbookMatched, regexMatched), h') \<Rightarrow>
          if \<not> worldbookMatched \<and> \<not> regexMatched then (Inl SyncError, h') else (Inr (), h'))"

section \<open>Binding registry\<close>

text \<open>
  What \<open>createBindingFromSelection\<close> reads from the panel: one row per selected
  worldbook entry and one rule id per selected rule, the main row first. \<open>entryUid\<close> is
  \<open>Number(...)\<close> of the selected value: \<open>None\<close> stands for every number that
  \<open>Number.isInteger\<close> rejects.
\<close>

record worldbook_selection =
  worldbookName :: jsstring
  entryUid :: "int option"

text \<open>The key of the duplicate test of lines 468-473.\<close>

definition binding_key :: "StatusBarBinding \<Rightarrow> jsstring \<times> int \<times> jsstring" where
  "binding_key b = (worldbook_name b, worldbook_entry_uid b, regex_id b)"

text \<open>The binding pushed at lines 478-486; \<open>text\<close> prints a number.\<close>

definition new_binding ::
  "jsstring \<Rightarrow> (int \<Rightarrow> jsstring) \<Rightarrow> jsstring \<Rightarrow> WorldbookEntry \<Rightarrow> TavernRegex \<Rightarrow> StatusBarBinding" where
  "new_binding fresh text wbName entry regex =
     \<lparr>id_binding = fresh,
      label = wbName @ ascii '' / '' @
                (if name_entry entry \<noteq> [] then name_entry entry else text (uid entry)),
      worldbook_name = wbName,
      worldbook_entry_uid = uid entry,
      worldbook_entry_name =
        (if name_entry entry \<noteq> [] then name_entry entry
         else [0x672A, 0x547D, 0x540D, 0x6761, 0x76EE, 0x2D] @ text (uid entry)),
      regex_id = id_regex regex,
      regex_script_name = script_name regex\<rparr>"

text \<open>
  The inner loop of lines 462-488 for one resolved entry: the registry and
  \<open>createdCount\<close> are carried through the iterations.
\<close>

fun create_for_regexes ::
  "jsstring \<Rightarrow> int \<Rightarrow> WorldbookEntry \<Rightarrow> TavernRegex list \<Rightarrow> jsstring list \<Rightarrow> host \<times> nat \<Rightarrow> host \<times> nat" where
  "create_for_regexes wbName wbUid entry managedRegexes [] (h, createdCount) = (h, createdCount)"
| "create_for_regexes wbName wbUid entry managedRegexes (regexIdItem # rest) (h, createdCount) =
     (case find (\<lambda>regexItem. id_regex regexItem = regexIdItem) managedRegexes of
        None \<Rightarrow> create_for_regexes wbName wbUid entry managedRegexes rest (h, createdCount)
      | Some regex \<Rightarrow>
          (case find (\<lambda>binding. worldbook_name binding = wbName
                                \<and> worldbook_entry_uid binding = wbUid
                                \<and> regex_id binding = regexIdItem) (bindings h) of
             Some duplicate \<Rightarrow>
               create_for_regexes wbName wbUid entry managedRegexes rest (h, createdCount)
           | None \<Rightarrow>
               create_for_regexes wbName wbUid entry managedRegexes rest
                 (h\<lparr>bindings := bindings h @ [new_binding (uuids h (uuid_count h)) (number_text h) wbName entry regex],
                    uuid_count := Suc (uuid_count h)\<rparr>,
                  createdCount + 1)))"

text \<open>
  The outer loop of lines 455-489 over the valid worldbook rows, given with the uid that
  \<open>Number.isInteger\<close> accepted. \<open>getWorldbook\<close> is not caught here: its exception leaves
  the function with what was pushed so far.
\<close>

fun create_for_worldbooks ::
  "TavernRegex list \<Rightarrow> jsstring list \<Rightarrow> (jsstring \<times> int) list \<Rightarrow> host \<times> nat \<Rightarrow> (error + nat) \<times> host" where
  "create_for_worldbooks managedRegexes validRegexSelections [] (h, createdCount) = (Inr createdCount, h)"
| "create_for_worldbooks managedRegexes validRegexSelections ((wbName, wbUid) # rest) (h, createdCount) =
     (case getWorldbook wbName h of
        Inl e \<Rightarrow> (Inl e, h)
      | Inr entries \<Rightarrow>
          (case find (\<lambda>entryItem. uid entryItem = wbUid) entries of
             None \<Rightarrow> create_for_worldbooks managedRegexes validRegexSelections rest (h, createdCount)
           | Some entry \<Rightarrow>
               create_for_worldbooks managedRegexes validRegexSelections rest
                 (create_for_regexes wbName wbUid entry managedRegexes validRegexSelections
                    (h, createdCount))))"

text \<open>The filter of lines 442-444, keeping the integer each valid row carries.\<close>

definition valid_worldbook_selections :: "worldbook_selection list \<Rightarrow> (jsstring \<times> int) list" where
  "valid_worldbook_selections sels =
     concat (map (\<lambda>item. case entryUid item of
                            None \<Rightarrow> []
                          | Some u \<Rightarrow> if worldbookName item \<noteq> [] then [(worldbookName item, u)] else [])
                 sels)"

text \<open>How \<open>createBindingFromSelection\<close> ends without an exception: the warning toast of
  line 448, the info toast of line 492, or the save and the success toast of lines
  496-497 with \<open>createdCount\<close>.\<close>

datatype create_outcome = SelectionIncomplete | NothingCreated | Created nat

text \<open>\<open>createdCount\<close> as the outcome reports it.\<close>

fun created_count :: "create_outcome \<Rightarrow> nat" where
  "created_count SelectionIncomplete = 0"
| "created_count NothingCreated = 0"
| "created_count (Created n) = n"

text \<open>\<open>createBindingFromSelection\<close> (lines 415-498), from the selections read at lines
  419-440.\<close>

definition createBindingFromSelection ::
  "worldbook_selection list \<Rightarrow> jsstring list \<Rightarrow> host \<Rightarrow> (error + create_outcome) \<times> host" where
  "createBindingFromSelection worldbookSelections regexSelections h =
     (let validWorldbookSelections = valid_worldbook_selections worldbookSelections;
          validRegexSelections = filter (\<lambda>item. length item > 0) regexSelections
      in if validWorldbookSelections = [] \<or> validRegexSelections = [] then (Inr SelectionIncomplete, h)
         else
           (case create_for_worldbooks (getManagedRegexes h) validRegexSelections
                   validWorldbookSelections (h, 0) of
              (Inl e, h') \<Rightarrow> (Inl e, h')
            | (Inr createdCount, h') \<Rightarrow>
                if createdCount = 0 then (Inr NothingCreated, h')
                else (Inr (Created createdCount), saveSettings h')))"

text \<open>The \<open>deleteBinding\<close> handler (lines 617-623).\<close>

definition deleteBinding :: "jsstring \<Rightarrow> host \<Rightarrow> host" where
  "deleteBinding ident h =
     saveSettings (h\<lparr>bindings := filter (\<lambda>item. id_binding item \<noteq> ident) (bindings h)\<rparr>)"

text \<open>\<open>binding.label = renamed\<close> on the binding that \<open>find\<close> returned: the first one
  with the id.\<close>

fun set_label :: "jsstring \<Rightarrow> jsstring \<Rightarrow> StatusBarBinding list \<Rightarrow> StatusBarBinding list" where
  "set_label ident renamed [] = []"
| "set_label ident renamed (b # bs) =
     (if id_binding b = ident then b\<lparr>label := renamed\<rparr> # bs
      else b # set_label ident renamed bs)"

text \<open>The \<open>renameStyle\<close> handler (lines 625-641); \<open>prompted\<close> is what \<open>promptText\<close>
  returned, \<open>None\<close> for \<open>null\<close>.\<close>

definition renameStyle :: "jsstring \<Rightarrow> jsstring option \<Rightarrow> host \<Rightarrow> host" where
  "renameStyle ident prompted h =
     (case find (\<lambda>item. id_binding item = ident) (bindings h) of
        None \<Rightarrow> h
      | Some binding \<Rightarrow>
          (case prompted of
             None \<Rightarrow> h
           | Some renamed \<Rightarrow>
               if renamed = [] then h
               else saveSettings (h\<lparr>bindings := set_label ident renamed (bindings h)\<rparr>)))"

section \<open>The specification's wording, and example data\<close>

text \<open>
  The descriptor extraction as the specification words it: the payload itself when it is
  a list; its \<open>regex_scripts\<close> field when that is a list; its \<open>data.regex_scripts\<close> field
  when that is a list; the payload as a one-element list when it is an object; otherwise
  nothing. \<open>own_field\<close> is a field of an object (nothing else has fields), \<open>as_list\<close>
  the elements of a value that is there and is a list.
\<close>

fun own_field :: "jsval \<Rightarrow> jsstring \<Rightarrow> jsval option" where
  "own_field (JObj kvs) k = map_of kvs k"
| "own_field _ k = None"

fun as_list :: "jsval option \<Rightarrow> jsval list option" where
  "as_list (Some (JArr xs)) = Some xs"
| "as_list _ = None"

definition descriptors_spec :: "jsval \<Rightarrow> jsval list" where
  "descriptors_spec payload =
     (case as_list (Some payload) of
        Some xs \<Rightarrow> xs
      | None \<Rightarrow>
       (case as_list (own_field payload (ascii ''regex_scripts'')) of
          Some xs \<Rightarrow> xs
        | None \<Rightarrow>
         (case as_list (Option.bind (own_field payload (ascii ''data''))
                          (\<lambda>d. own_field d (ascii ''regex_scripts''))) of
            Some xs \<Rightarrow> xs
          | None \<Rightarrow> (case payload of JObj _ \<Rightarrow> [payload] | _ \<Rightarrow> []))))"

text \<open>
  The descriptor-name list as the specification words it: for each descriptor the first
  of \<open>script_name\<close>, \<open>scriptName\<close>, \<open>name\<close>, \<open>title\<close> that is present (and not \<open>null\<close>), as
  a trimmed string, the empty string when there is none or it has no string form; the
  empty names are discarded.
\<close>

fun first_present :: "jsval \<Rightarrow> jsstring list \<Rightarrow> jsval option" where
  "first_present d [] = None"
| "first_present d (k # ks) =
     (case own_field d k of
        None \<Rightarrow> first_present d ks
      | Some v \<Rightarrow> if v = JNull \<or> v = JUndefined then first_present d ks else Some v)"

definition display_name_spec :: "jsval \<Rightarrow> jsstring option" where
  "display_name_spec d =
     (case first_present d [ascii ''script_name'', ascii ''scriptName'', ascii ''name'', ascii ''title''] of
        None \<Rightarrow> Some []
      | Some v \<Rightarrow> (case js_String v of Inl _ \<Rightarrow> None | Inr s \<Rightarrow> Some (trim s)))"

definition descriptor_names_spec :: "jsval \<Rightarrow> jsstring list" where
  "descriptor_names_spec payload =
     filter (\<lambda>n. n \<noteq> [])
       (map (\<lambda>d. case display_name_spec d of None \<Rightarrow> [] | Some s \<Rightarrow> s) (descriptors_spec payload))"

text \<open>
  The list the code infers: the same list, but only when the file parsed and every
  descriptor gave a name. A file that is not JSON, a descriptor that is \<open>null\<close> and a
  name without a string form each leave no inferred name at all.
\<close>

definition descriptor_names_amended :: "jsval option \<Rightarrow> jsstring list" where
  "descriptor_names_amended parsed =
     (case parsed of
        None \<Rightarrow> []
      | Some payload \<Rightarrow>
          if list_ex (\<lambda>d. d = JNull \<or> d = JUndefined \<or> display_name_spec d = None)
               (descriptors_spec payload)
          then []
          else descriptor_names_spec payload)"

text \<open>The registry invariant: no two bindings share the tuple
  \<open>(worldbook_name, worldbook_entry_uid, regex_id)\<close>.\<close>

definition unique_tuples :: "StatusBarBinding list \<Rightarrow> bool" where
  "unique_tuples bs = distinct (map binding_key bs)"

text \<open>
  A selected row is covered when its worldbook can be read and, if its entry resolves,
  every selected rule that resolves among the managed rules already has its tuple in the
  registry.
\<close>

definition covered :: "host \<Rightarrow> TavernRegex list \<Rightarrow> jsstring list \<Rightarrow> jsstring \<times> int \<Rightarrow> bool" where
  "covered h M rs w =
     (case worldbooks h (fst w) of
        None \<Rightarrow> False
      | Some es \<Rightarrow>
          (case find (\<lambda>x. uid x = snd w) es of
             None \<Rightarrow> True
           | Some e \<Rightarrow>
               list_all (\<lambda>r. find (\<lambda>x. id_regex x = r) M = None
                              \<or> (fst w, snd w, r) \<in> set (map binding_key (bindings h))) rs))"

text \<open>
  Example data. \<open>rule_old\<close> is a managed rule, \<open>rule_foo\<close> a rule whose name has lost the
  prefix; \<open>payload_foo\<close> is \<open>{ "regex_scripts": [{ "id": "r1", "script_name": "Foo" }] }\<close>.
  In \<open>host_live\<close> the binding \<open>binding_hero\<close> refers to a live entry and a live rule; in
  \<open>host_worldbook_gone\<close> its worldbook can no longer be read.
\<close>

definition rule_old :: TavernRegex where
  "rule_old = \<lparr>id_regex = ascii ''r0'', script_name = REGEX_PREFIX @ ascii ''Old'',
               enabled_regex = False, replace_string = [], rest_regex = JNull\<rparr>"

definition rule_foo :: TavernRegex where
  "rule_foo = \<lparr>id_regex = ascii ''r1'', script_name = ascii ''Foo'',
               enabled_regex = True, replace_string = [], rest_regex = JNull\<rparr>"

definition entry_hero :: WorldbookEntry where
  "entry_hero = \<lparr>uid = 7, name_entry = ascii ''Hero'', enabled_entry = False, rest_entry = JNull\<rparr>"

definition entry_other :: WorldbookEntry where
  "entry_other = \<lparr>uid = 8, name_entry = [], enabled_entry = True, rest_entry = JNull\<rparr>"

definition binding_hero :: StatusBarBinding where
  "binding_hero =
     \<lparr>id_binding = ascii ''b1'', label = ascii ''Lore / Hero'', worldbook_name = ascii ''Lore'',
      worldbook_entry_uid = 7, worldbook_entry_name = ascii ''Hero'', regex_id = ascii ''r1'',
      regex_script_name = REGEX_PREFIX @ ascii ''Foo''\<rparr>"

definition payload_foo :: jsval where
  "payload_foo =
     JObj [(ascii ''regex_scripts'',
            JArr [JObj [(ascii ''id'', JStr (ascii ''r1'')),
                        (ascii ''script_name'', JStr (ascii ''Foo''))]])]"

definition host_start :: host where
  "host_start =
     \<lparr>worldbooks = [ascii ''Lore'' \<mapsto> [entry_hero, entry_other]],
      regexes = [rule_old],
      bindings = [],
      saves = [],
      uuids = (\<lambda>n. ascii ''id-'' @ nat_digits n),
      uuid_count = 0,
      number_text = decimal_text\<rparr>"

definition ingest_foo :: "TavernRegex list \<Rightarrow> bool \<times> TavernRegex list" where
  "ingest_foo rs = (True, rs @ [rule_foo])"

definition ingest_rejects :: "TavernRegex list \<Rightarrow> bool \<times> TavernRegex list" where
  "ingest_rejects rs = (False, rs)"

definition host_live :: host where
  "host_live = host_start\<lparr>regexes := [rule_old, rule_foo], bindings := [binding_hero]\<rparr>"

definition host_worldbook_gone :: host where
  "host_worldbook_gone = host_live\<lparr>worldbooks := Map.empty\<rparr>"

text \<open>
  \<open>payload_bar\<close> is \<open>[{ "name": "Bar" }, { "name": null, "title": " Baz " }]\<close>;
  \<open>payload_null\<close> is \<open>[{ "name": "A" }, null, { "name": "B" }]\<close>. \<open>ingest_many\<close> appends
  three rules, whose store names are \<open>Foo\<close>, \<open>Qux\<close> and \<open>Own\<close>.
\<close>

definition payload_bar :: jsval where
  "payload_bar =
     JArr [JObj [(ascii ''name'', JStr (ascii ''Bar''))],
           JObj [(ascii ''name'', JNull), (ascii ''title'', JStr (ascii '' Baz ''))]]"

definition payload_null :: jsval where
  "payload_null =
     JArr [JObj [(ascii ''name'', JStr (ascii ''A''))], JNull,
           JObj [(ascii ''name'', JStr (ascii ''B''))]]"

definition rule_qux :: TavernRegex where
  "rule_qux = \<lparr>id_regex = ascii ''r2'', script_name = ascii ''Qux'',
               enabled_regex = False, replace_string = [], rest_regex = JNull\<rparr>"

definition rule_own :: TavernRegex where
  "rule_own = \<lparr>id_regex = ascii ''r3'', script_name = ascii ''Own'',
               enabled_regex = False, replace_string = [], rest_regex = JNull\<rparr>"

definition ingest_many :: "TavernRegex list \<Rightarrow> bool \<times> TavernRegex list" where
  "ingest_many rs = (True, rs @ [rule_foo, rule_qux, rule_own])"

lemmas example_defs =
  rule_old_def rule_foo_def entry_hero_def entry_other_def binding_hero_def payload_foo_def
  host_start_def ingest_foo_def ingest_rejects_def host_live_def host_worldbook_gone_def

section \<open>Naming policy: properties\<close>

lemma ascii_simps: "ascii [] = []" "ascii (c # cs) = of_nat (of_char c) # ascii cs"
  by (simp_all add: ascii_def)

lemma startsWith_prefix: "startsWith s p \<longleftrightarrow> prefix p s"
  by (metis startsWith_def prefix_length_le take_is_prefix append_eq_conv_conj prefix_def)

lemma startsWith_ensureRegexPrefix: "startsWith (ensureRegexPrefix n) REGEX_PREFIX"
  by (simp add: ensureRegexPrefix_def startsWith_prefix)

text \<open>
  C6. \<open>ensureRegexPrefix\<close> returns a name that already starts with the namespace prefix
  unchanged and puts the prefix in front of every other name; applying it twice gives
  the same as applying it once.
\<close>

theorem ensureRegexPrefix_idempotent:
  "ensureRegexPrefix n = (if prefix REGEX_PREFIX n then n else REGEX_PREFIX @ n)
   \<and> ensureRegexPrefix (ensureRegexPrefix n) = ensureRegexPrefix n"
  by (simp add: ensureRegexPrefix_def startsWith_prefix)

section \<open>Import merger: properties\<close>

lemma optProp_own_field:
  "as_list (Some (optProp v k)) = as_list (own_field v k)"
  by (cases v) (auto simp: optProp_def getProp_def split: option.splits)

lemma as_list_case:
  "(case v of JArr xs \<Rightarrow> f xs | _ \<Rightarrow> g) = (case as_list (Some v) of Some xs \<Rightarrow> f xs | None \<Rightarrow> g)"
  by (cases v) auto

lemma optProp_data:
  "as_list (Some (optProp (optProp v k) k')) = as_list (Option.bind (own_field v k) (\<lambda>d. own_field d k'))"
  apply (cases v; simp add: optProp_def getProp_def split: option.splits)
  subgoal for kvs
    apply (cases "map_of kvs k"; simp)
    subgoal for d by (cases d; simp split: option.splits)
    done
  done

text \<open>
  C7. For every payload, \<open>parseImportedRegexList\<close> gives what the specification's ordered
  list of shapes gives: the payload when it is a list, else its \<open>regex_scripts\<close> list, else
  its \<open>data.regex_scripts\<close> list, else the payload alone when it is an object, else the
  empty list.
\<close>

theorem parseImportedRegexList_order:
  "parseImportedRegexList payload = descriptors_spec payload"
  unfolding parseImportedRegexList_def descriptors_spec_def as_list_case
  unfolding optProp_data
  unfolding optProp_own_field
  by (cases payload) (auto simp: truthy_def typeof_object_def split: option.splits)

lemma length_rename_new: "length (rename_new B names i rs) = length rs"
  by (induction rs arbitrary: i) auto

lemma rename_new_nth:
  "k < length rs \<Longrightarrow>
   rename_new B names i rs ! k =
     (if id_regex (rs ! k) \<in> B then rs ! k
      else (rs ! k)\<lparr>script_name :=
             ensureRegexPrefix
               (if i + length (filter (\<lambda>r. id_regex r \<notin> B) (take k rs)) < length names
                then names ! (i + length (filter (\<lambda>r. id_regex r \<notin> B) (take k rs)))
                else script_name (rs ! k))\<rparr>)"
proof (induction rs arbitrary: i k)
  case Nil
  then show ?case by simp
next
  case (Cons r rs)
  show ?case
  proof (cases k)
    case 0
    then show ?thesis by simp
  next
    case (Suc k')
    with Cons.prems have "k' < length rs" by simp
    from Cons.IH [OF this] show ?thesis using Suc by simp
  qed
qed

lemma managed_rename_new:
  "length (filter (\<lambda>r. startsWith (script_name r) REGEX_PREFIX) (rename_new B names i rs)) =
   length (filter (\<lambda>r. id_regex r \<notin> B) rs)
   + length (filter (\<lambda>r. id_regex r \<in> B \<and> startsWith (script_name r) REGEX_PREFIX) rs)"
  by (induction rs arbitrary: i) (auto simp: startsWith_ensureRegexPrefix)

lemma importRegexFromFile_Imported:
  assumes "importRegexFromFile input h = (Imported n, h')"
  obtains parsed ingest rs where
    "input = FileContent parsed ingest" "ingest (regexes h) = (True, rs)"
    "h' = h\<lparr>regexes := rename_new (set (map id_regex (regexes h))) (importedNames_of parsed) 0 rs\<rparr>"
    "n = length (filter (\<lambda>r. startsWith (script_name r) REGEX_PREFIX) (regexes h'))"
  using assms
  by (auto simp: importRegexFromFile_def Let_def updateTavernRegexesWith_def getTavernRegexes_def
      getManagedRegexes_def split: file_input.splits prod.splits if_splits)

text \<open>
  C4. When the ingestion routine signals failure, \<open>importRegexFromFile\<close> ends with the
  import error; the rule store is exactly as the ingestion routine left it (no renaming
  pass ran), and the registry, the log of saves and everything else are as before.
\<close>

theorem import_failure_mutates_nothing:
  "\<not> fst (ingest (regexes h)) \<Longrightarrow>
   importRegexFromFile (FileContent parsed ingest) h =
     (ImportFailed, h\<lparr>regexes := snd (ingest (regexes h))\<rparr>)"
  by (cases "ingest (regexes h)") (simp add: importRegexFromFile_def getTavernRegexes_def)

theorem import_failure_mutates_nothing_witness:
  "importRegexFromFile (FileContent (Some payload_foo) ingest_rejects) host_live = (ImportFailed, host_live)"
  using import_failure_mutates_nothing [of ingest_rejects host_live "Some payload_foo"]
  by (simp add: ingest_rejects_def host_live_def)

text \<open>
  What the code infers is the amended list: \<open>getRegexDisplayName\<close> raises on a \<open>null\<close>
  descriptor and on a name without a string form, and the \<open>catch\<close> of line 121 then
  drops every name.
\<close>

lemma parse_descriptors: "parseImportedRegexList payload = descriptors_spec payload"
  unfolding parseImportedRegexList_def descriptors_spec_def as_list_case
  unfolding optProp_data
  unfolding optProp_own_field
  by (cases payload) (auto simp: truthy_def typeof_object_def split: option.splits)

lemma getProp_own_field:
  "\<not> nullish d \<Longrightarrow> getProp d k = Inr (case own_field d k of None \<Rightarrow> JUndefined | Some v \<Rightarrow> v)"
  by (cases d) (simp_all add: getProp_def nullish_def)

lemma coalesce_first_present:
  "\<not> nullish d \<Longrightarrow>
   coalesce d ks = Inr (case first_present d ks of None \<Rightarrow> JStr [] | Some v \<Rightarrow> v)"
  by (induction ks) (auto simp: getProp_own_field nullish_def split: option.splits)

lemma getRegexDisplayName_nullish: "nullish d \<Longrightarrow> isl (getRegexDisplayName d)"
  by (auto simp: getRegexDisplayName_def getProp_def nullish_def)

lemma getRegexDisplayName_spec:
  "\<not> nullish d \<Longrightarrow>
   getRegexDisplayName d =
     (case first_present d [ascii ''script_name'', ascii ''scriptName'', ascii ''name'', ascii ''title''] of
        None \<Rightarrow> Inr []
      | Some v \<Rightarrow> (case js_String v of Inl e \<Rightarrow> Inl e | Inr s \<Rightarrow> Inr (trim s)))"
proof -
  assume n: "\<not> nullish d"
  have e: "js_String (JStr []) = Inr []" by simp
  have t: "trim [] = []" by (simp add: trim_def)
  show ?thesis
    unfolding getRegexDisplayName_def coalesce_first_present [OF n]
    by (cases "first_present d [ascii ''script_name'', ascii ''scriptName'', ascii ''name'', ascii ''title'']")
       (simp_all only: option.case sum.case e t)
qed

lemma getRegexDisplayName_fails:
  "\<not> nullish d \<Longrightarrow> display_name_spec d = None \<Longrightarrow> isl (getRegexDisplayName d)"
  by (auto simp: getRegexDisplayName_spec display_name_spec_def simp del: first_present.simps
      split: option.splits sum.splits)

lemma getRegexDisplayName_gives:
  "\<not> nullish d \<Longrightarrow> display_name_spec d = Some s \<Longrightarrow> getRegexDisplayName d = Inr s"
  by (auto simp: getRegexDisplayName_spec display_name_spec_def simp del: first_present.simps
      split: option.splits sum.splits)

lemma map_getRegexDisplayName_fails:
  "list_ex (\<lambda>d. d = JNull \<or> d = JUndefined \<or> display_name_spec d = None) ds \<Longrightarrow>
   isl (map_getRegexDisplayName ds)"
proof (induction ds)
  case Nil
  then show ?case by simp
next
  case (Cons d ds)
  show ?case
  proof (cases "nullish d \<or> display_name_spec d = None")
    case True
    then have "isl (getRegexDisplayName d)"
      using getRegexDisplayName_nullish getRegexDisplayName_fails by blast
    then show ?thesis by (auto simp: isl_def)
  next
    case False
    with Cons have "isl (map_getRegexDisplayName ds)" by (auto simp: nullish_def)
    then show ?thesis by (auto simp: isl_def split: sum.splits)
  qed
qed

lemma map_getRegexDisplayName_gives:
  "\<not> list_ex (\<lambda>d. d = JNull \<or> d = JUndefined \<or> display_name_spec d = None) ds \<Longrightarrow>
   map_getRegexDisplayName ds =
     Inr (map (\<lambda>d. case display_name_spec d of None \<Rightarrow> [] | Some s \<Rightarrow> s) ds)"
proof (induction ds)
  case Nil
  then show ?case by simp
next
  case (Cons d ds)
  from Cons.prems obtain s where "\<not> nullish d" "display_name_spec d = Some s"
    by (auto simp: nullish_def)
  moreover from this have "getRegexDisplayName d = Inr s" by (rule getRegexDisplayName_gives)
  moreover from Cons have "map_getRegexDisplayName ds =
     Inr (map (\<lambda>d. case display_name_spec d of None \<Rightarrow> [] | Some s \<Rightarrow> s) ds)" by simp
  ultimately show ?case by simp
qed

lemma importedNames_of_amended: "importedNames_of parsed = descriptor_names_amended parsed"
proof (cases parsed)
  case None
  then show ?thesis by (simp add: importedNames_of_def descriptor_names_amended_def)
next
  case (Some payload)
  show ?thesis
  proof (cases "list_ex (\<lambda>d. d = JNull \<or> d = JUndefined \<or> display_name_spec d = None)
                  (descriptors_spec payload)")
    case True
    from map_getRegexDisplayName_fails [OF this] True Some show ?thesis
      by (auto simp: importedNames_of_def descriptor_names_amended_def parse_descriptors isl_def)
  next
    case False
    from map_getRegexDisplayName_gives [OF this] False Some show ?thesis
      by (simp add: importedNames_of_def descriptor_names_amended_def parse_descriptors
          descriptor_names_spec_def)
  qed
qed

text \<open>
  C5, as amended. After a successful import, the rule at each position of the store is
  the rule the ingestion left there, unmodified when its id was in the snapshot taken
  before the ingestion; otherwise only its name is rewritten, to \<open>ensureRegexPrefix\<close> of
  the inferred name whose index is the number of new rules before it in the store's
  order, or of the rule's own name when the inferred names are used up. The inferred
  names are the specification's descriptor-name list when the file parsed and every
  descriptor gave a name, and none otherwise.
\<close>

theorem import_renames_new_rules:
  assumes "fst (importRegexFromFile (FileContent parsed ingest) h) = Imported n"
    and "k < length (snd (ingest (regexes h)))"
  shows "length (regexes (snd (importRegexFromFile (FileContent parsed ingest) h)))
           = length (snd (ingest (regexes h)))
       \<and> regexes (snd (importRegexFromFile (FileContent parsed ingest) h)) ! k =
           (let item = snd (ingest (regexes h)) ! k;
                isNew = (\<lambda>r. id_regex r \<notin> id_regex ` set (regexes h));
                j = length (filter isNew (take k (snd (ingest (regexes h)))));
                names = descriptor_names_amended parsed
            in if isNew item
               then item\<lparr>script_name :=
                      ensureRegexPrefix (if j < length names then names ! j else script_name item)\<rparr>
               else item)"
proof -
  obtain out h' where run: "importRegexFromFile (FileContent parsed ingest) h = (out, h')"
    by (cases "importRegexFromFile (FileContent parsed ingest) h")
  with assms(1) have run': "importRegexFromFile (FileContent parsed ingest) h = (Imported n, h')"
    by simp
  then obtain p g rs where
    i: "FileContent parsed ingest = FileContent p g" and g: "g (regexes h) = (True, rs)"
    and h': "h' = h\<lparr>regexes := rename_new (set (map id_regex (regexes h))) (importedNames_of p) 0 rs\<rparr>"
    by (rule importRegexFromFile_Imported)
  from i g have rs: "snd (ingest (regexes h)) = rs" and p: "p = parsed" by simp_all
  from assms(2) have k: "k < length rs" by (simp add: rs)
  show ?thesis
    by (simp add: run' h' rs p length_rename_new rename_new_nth [OF k] Let_def
        importedNames_of_amended)
qed

lemma names_payload_foo: "descriptor_names_amended (Some payload_foo) = [ascii ''Foo'']"
  by (simp add: descriptor_names_amended_def descriptor_names_spec_def descriptors_spec_def
      display_name_spec_def payload_foo_def trim_def isTrimUnit_def ascii_simps)

lemma names_payload_bar:
  "descriptor_names_amended (Some payload_bar) = [ascii ''Bar'', ascii ''Baz'']"
  by (simp add: descriptor_names_amended_def descriptor_names_spec_def descriptors_spec_def
      display_name_spec_def payload_bar_def trim_def isTrimUnit_def ascii_simps)

lemma names_payload_null: "descriptor_names_amended (Some payload_null) = []"
  by (simp add: descriptor_names_amended_def descriptors_spec_def payload_null_def)

lemma ensureRegexPrefix_plain:
  "ensureRegexPrefix (ascii ''Foo'') = REGEX_PREFIX @ ascii ''Foo''"
  "ensureRegexPrefix (ascii ''Bar'') = REGEX_PREFIX @ ascii ''Bar''"
  "ensureRegexPrefix (ascii ''Baz'') = REGEX_PREFIX @ ascii ''Baz''"
  "ensureRegexPrefix (ascii ''Own'') = REGEX_PREFIX @ ascii ''Own''"
  "ensureRegexPrefix (ascii ''A'') = REGEX_PREFIX @ ascii ''A''"
  by (simp_all add: ensureRegexPrefix_def startsWith_def REGEX_PREFIX_def ascii_simps)

lemma import_many_succeeds:
  "fst (importRegexFromFile (FileContent parsed ingest_many) host_start) = Imported 4"
  by (simp add: importRegexFromFile_def Let_def updateTavernRegexesWith_def
      getTavernRegexes_def getManagedRegexes_def example_defs ingest_many_def rule_qux_def
      rule_own_def startsWith_ensureRegexPrefix)
     (simp add: startsWith_def REGEX_PREFIX_def ascii_simps)

lemma ingest_many_store:
  "snd (ingest_many (regexes host_start)) = [rule_old, rule_foo, rule_qux, rule_own]"
  "id_regex ` set (regexes host_start) = {ascii ''r0''}"
  "id_regex rule_old = ascii ''r0''" "id_regex rule_foo = ascii ''r1''"
  "id_regex rule_qux = ascii ''r2''" "id_regex rule_own = ascii ''r3''"
  "script_name rule_foo = ascii ''Foo''" "script_name rule_own = ascii ''Own''"
  by (simp_all add: ingest_many_def example_defs rule_qux_def rule_own_def)

lemma example_ids_differ:
  "ascii ''r1'' \<noteq> ascii ''r0''" "ascii ''r2'' \<noteq> ascii ''r0''" "ascii ''r3'' \<noteq> ascii ''r0''"
  by (simp_all add: ascii_simps)

theorem import_renames_new_rules_witness:
  "fst (importRegexFromFile (FileContent (Some payload_foo) ingest_foo) host_start) = Imported 2
   \<and> regexes (snd (importRegexFromFile (FileContent (Some payload_foo) ingest_foo) host_start)) ! 1
       = rule_foo\<lparr>script_name := REGEX_PREFIX @ ascii ''Foo''\<rparr>
   \<and> regexes (snd (importRegexFromFile (FileContent (Some payload_foo) ingest_foo) host_start)) ! 0
       = rule_old
   \<and> fst (importRegexFromFile (FileContent (Some payload_bar) ingest_many) host_start) = Imported 4
   \<and> regexes (snd (importRegexFromFile (FileContent (Some payload_bar) ingest_many) host_start))
       = [rule_old,
          rule_foo\<lparr>script_name := REGEX_PREFIX @ ascii ''Bar''\<rparr>,
          rule_qux\<lparr>script_name := REGEX_PREFIX @ ascii ''Baz''\<rparr>,
          rule_own\<lparr>script_name := REGEX_PREFIX @ ascii ''Own''\<rparr>]"
proof -
  have run: "fst (importRegexFromFile (FileContent (Some payload_foo) ingest_foo) host_start) = Imported 2"
    by (simp add: importRegexFromFile_def Let_def updateTavernRegexesWith_def
        getTavernRegexes_def getManagedRegexes_def example_defs startsWith_ensureRegexPrefix)
       (simp add: startsWith_def REGEX_PREFIX_def ascii_simps)
  have ing: "snd (ingest_foo (regexes host_start)) = [rule_old, rule_foo]"
    by (simp add: ingest_foo_def host_start_def)
  note many = import_many_succeeds [of "Some payload_bar"]
  let ?after = "regexes (snd (importRegexFromFile (FileContent (Some payload_bar) ingest_many) host_start))"
  from import_renames_new_rules [OF run, of 1] import_renames_new_rules [OF run, of 0]
  have foo: "regexes (snd (importRegexFromFile (FileContent (Some payload_foo) ingest_foo) host_start)) ! 1
       = rule_foo\<lparr>script_name := REGEX_PREFIX @ ascii ''Foo''\<rparr>"
    "regexes (snd (importRegexFromFile (FileContent (Some payload_foo) ingest_foo) host_start)) ! 0
       = rule_old"
    by (simp_all add: ing names_payload_foo ingest_many_store example_ids_differ
        ensureRegexPrefix_plain Let_def)
  from import_renames_new_rules [OF many, of 0] import_renames_new_rules [OF many, of 1]
    import_renames_new_rules [OF many, of 2] import_renames_new_rules [OF many, of 3]
  have "length ?after = 4" "?after ! 0 = rule_old"
    "?after ! 1 = rule_foo\<lparr>script_name := REGEX_PREFIX @ ascii ''Bar''\<rparr>"
    "?after ! 2 = rule_qux\<lparr>script_name := REGEX_PREFIX @ ascii ''Baz''\<rparr>"
    "?after ! 3 = rule_own\<lparr>script_name := REGEX_PREFIX @ ascii ''Own''\<rparr>"
    by (simp_all add: names_payload_bar ingest_many_store example_ids_differ
        ensureRegexPrefix_plain Let_def)
  then have "?after = [rule_old,
          rule_foo\<lparr>script_name := REGEX_PREFIX @ ascii ''Bar''\<rparr>,
          rule_qux\<lparr>script_name := REGEX_PREFIX @ ascii ''Baz''\<rparr>,
          rule_own\<lparr>script_name := REGEX_PREFIX @ ascii ''Own''\<rparr>]"
    by (simp add: list_eq_iff_nth_eq less_Suc_eq numeral_nat)
  with run foo many show ?thesis by simp
qed

text \<open>
  The claim as first stated, with the specification's list for every payload, fails
  where a descriptor is \<open>null\<close>: the specification's list for \<open>payload_null\<close> is \<open>A\<close>, \<open>B\<close>,
  but the first new rule keeps its own name \<open>Foo\<close> under the prefix instead of taking \<open>A\<close>.
\<close>

theorem import_renames_new_rules_counterexample:
  "fst (importRegexFromFile (FileContent (Some payload_null) ingest_many) host_start) = Imported 4
   \<and> descriptor_names_spec payload_null = [ascii ''A'', ascii ''B'']
   \<and> snd (ingest_many (regexes host_start)) ! 1 = rule_foo
   \<and> id_regex rule_foo \<notin> id_regex ` set (regexes host_start)
   \<and> regexes (snd (importRegexFromFile (FileContent (Some payload_null) ingest_many) host_start)) ! 1
       = rule_foo\<lparr>script_name := REGEX_PREFIX @ ascii ''Foo''\<rparr>
   \<and> regexes (snd (importRegexFromFile (FileContent (Some payload_null) ingest_many) host_start)) ! 1
       \<noteq> rule_foo\<lparr>script_name := ensureRegexPrefix (descriptor_names_spec payload_null ! 0)\<rparr>"
proof -
  have spec: "descriptor_names_spec payload_null = [ascii ''A'', ascii ''B'']"
    by (simp add: descriptor_names_spec_def descriptors_spec_def display_name_spec_def
        payload_null_def trim_def isTrimUnit_def ascii_simps)
  have code: "importedNames_of (Some payload_null) = []"
    by (simp add: importedNames_of_def parseImportedRegexList_def payload_null_def
        getRegexDisplayName_def getProp_def nullish_def trim_def isTrimUnit_def ascii_simps)
  have after: "regexes (snd (importRegexFromFile (FileContent (Some payload_null) ingest_many) host_start)) ! 1
       = rule_foo\<lparr>script_name := REGEX_PREFIX @ ascii ''Foo''\<rparr>"
    by (simp add: importRegexFromFile_def Let_def updateTavernRegexesWith_def getTavernRegexes_def
        code ingest_many_def host_start_def)
       (simp add: ingest_many_store example_ids_differ ensureRegexPrefix_plain rule_old_def)
  have differ: "rule_foo\<lparr>script_name := REGEX_PREFIX @ ascii ''Foo''\<rparr>
       \<noteq> rule_foo\<lparr>script_name := REGEX_PREFIX @ ascii ''A''\<rparr>"
    by (simp add: rule_foo_def ascii_simps)
  show ?thesis
    using import_many_succeeds [of "Some payload_null"] spec after differ
    by (simp add: ingest_many_store example_ids_differ ensureRegexPrefix_plain)
qed

text \<open>
  C8. The count a successful import reports is the size of the managed subset of the
  rule store after the import. It is the number of new rules plus the number of
  pre-existing rules that are managed, so not the number of new rules alone.
\<close>

theorem import_count_is_managed_total:
  assumes "fst (importRegexFromFile (FileContent parsed ingest) h) = Imported n"
  shows "n = length (getManagedRegexes (snd (importRegexFromFile (FileContent parsed ingest) h)))
       \<and> n = length (filter (\<lambda>r. id_regex r \<notin> id_regex ` set (regexes h)) (snd (ingest (regexes h))))
           + length (filter (\<lambda>r. id_regex r \<in> id_regex ` set (regexes h)
                                  \<and> startsWith (script_name r) REGEX_PREFIX) (snd (ingest (regexes h))))"
proof -
  obtain out h' where run: "importRegexFromFile (FileContent parsed ingest) h = (out, h')"
    by (cases "importRegexFromFile (FileContent parsed ingest) h")
  with assms have run': "importRegexFromFile (FileContent parsed ingest) h = (Imported n, h')"
    by simp
  then obtain p g rs where
    i: "FileContent parsed ingest = FileContent p g" and g: "g (regexes h) = (True, rs)"
    and h': "h' = h\<lparr>regexes := rename_new (set (map id_regex (regexes h))) (importedNames_of p) 0 rs\<rparr>"
    and n: "n = length (filter (\<lambda>r. startsWith (script_name r) REGEX_PREFIX) (regexes h'))"
    by (rule importRegexFromFile_Imported)
  from i g have rs: "snd (ingest (regexes h)) = rs" by simp
  show ?thesis
    using n by (simp add: run' h' rs managed_rename_new getManagedRegexes_def getTavernRegexes_def)
qed

theorem import_count_is_managed_total_witness:
  "fst (importRegexFromFile (FileContent None ingest_foo) host_start) = Imported 2
   \<and> length (getManagedRegexes (snd (importRegexFromFile (FileContent None ingest_foo) host_start))) = 2
   \<and> length (filter (\<lambda>r. id_regex r \<notin> id_regex ` set (regexes host_start))
               (snd (ingest_foo (regexes host_start)))) = 1"
proof -
  have run: "fst (importRegexFromFile (FileContent None ingest_foo) host_start) = Imported 2"
    by (simp add: importRegexFromFile_def importedNames_of_def Let_def updateTavernRegexesWith_def
        getTavernRegexes_def getManagedRegexes_def example_defs ensureRegexPrefix_def
        startsWith_def REGEX_PREFIX_def ascii_simps)
  have new: "length (filter (\<lambda>r. id_regex r \<notin> id_regex ` set (regexes host_start))
               (snd (ingest_foo (regexes host_start)))) = 1"
    by (simp add: example_defs ascii_simps)
  from import_count_is_managed_total [OF run] run new show ?thesis by simp
qed

section \<open>Live-state reconciler: properties\<close>

text \<open>
  C2. For every binding and every state of the two stores, \<open>getBindingLiveState\<close> returns
  (it never raises). \<open>worldbook_enabled\<close> is \<open>null\<close> when the worldbook cannot be read or has
  no entry with the binding's uid, and otherwise the \<open>enabled\<close> value of the first such
  entry; \<open>regex_enabled\<close> is \<open>null\<close> when no rule has the binding's \<open>regex_id\<close>, and otherwise
  the \<open>enabled\<close> value of the first such rule.
\<close>

theorem getBindingLiveState_total:
  "getBindingLiveState b h =
     Inr \<lparr>worldbook_enabled =
            (case worldbooks h (worldbook_name b) of
               None \<Rightarrow> None
             | Some es \<Rightarrow> map_option enabled_entry (find (\<lambda>e. uid e = worldbook_entry_uid b) es)),
          regex_enabled =
            map_option enabled_regex (find (\<lambda>r. id_regex r = regex_id b) (regexes h))\<rparr>"
  by (simp add: getBindingLiveState_def getWorldbook_def getRegexById_def getTavernRegexes_def
      split: option.splits)

section \<open>Dual-resource toggle: properties\<close>

lemma toggle_entries_eq:
  "toggle_entries u en es m =
     (map (\<lambda>e. if uid e = u then e\<lparr>enabled_entry := en\<rparr> else e) es, m \<or> (\<exists>e\<in>set es. uid e = u))"
  by (induction es arbitrary: m) auto

lemma toggle_regexes_eq:
  "toggle_regexes rid en rs m =
     (map (\<lambda>r. if id_regex r = rid
                then r\<lparr>enabled_regex := en, script_name := ensureRegexPrefix (script_name r)\<rparr>
                else r) rs,
      m \<or> (\<exists>r\<in>set rs. id_regex r = rid))"
  by (induction rs arbitrary: m) auto

lemma updates_unreadable:
  "worldbooks h (worldbook_name b) = None \<Longrightarrow> setBindingEnabled_updates b en h = (Inl StoreError, h)"
  by (simp add: setBindingEnabled_updates_def updateWorldbookWith_def getWorldbook_def)

lemma updates_readable:
  "worldbooks h (worldbook_name b) = Some es \<Longrightarrow>
   setBindingEnabled_updates b en h =
     (Inr (\<exists>e\<in>set es. uid e = worldbook_entry_uid b, \<exists>r\<in>set (regexes h). id_regex r = regex_id b),
      h\<lparr>worldbooks := (worldbooks h)(worldbook_name b \<mapsto>
            map (\<lambda>e. if uid e = worldbook_entry_uid b then e\<lparr>enabled_entry := en\<rparr> else e) es),
        regexes := map (\<lambda>r. if id_regex r = regex_id b
                then r\<lparr>enabled_regex := en, script_name := ensureRegexPrefix (script_name r)\<rparr>
                else r) (regexes h)\<rparr>)"
  by (simp add: setBindingEnabled_updates_def updateWorldbookWith_def getWorldbook_def
      updateTavernRegexesWith_def getTavernRegexes_def toggle_entries_eq toggle_regexes_eq)

text \<open>
  While the binding's worldbook can be read, \<open>setBindingEnabled\<close> raises \<open>SyncError\<close>
  exactly when neither an entry nor a rule matched, and returns otherwise.
\<close>

lemma setBindingEnabled_readable:
  assumes "worldbooks h (worldbook_name b) = Some es"
  shows "fst (setBindingEnabled b en h) =
           (if (\<exists>e\<in>set es. uid e = worldbook_entry_uid b) \<or> (\<exists>r\<in>set (regexes h). id_regex r = regex_id b)
            then Inr () else Inl SyncError)"
  by (simp add: setBindingEnabled_def updates_readable [OF assms])

text \<open>
  C1. Evaluated where the binding's worldbook can no longer be read while its rule is
  live: \<open>setBindingEnabled\<close> ends with the store's error, not with success and not with
  \<open>SyncError\<close>, and the rule is left untouched, although a rule with the binding's
  \<open>regex_id\<close> is in the store. \<open>getBindingLiveState\<close> on the same input catches the same
  failure and reports the rule as live.
\<close>

theorem setBindingEnabled_worldbook_gone:
  "setBindingEnabled binding_hero False host_worldbook_gone = (Inl StoreError, host_worldbook_gone)
   \<and> find (\<lambda>r. id_regex r = regex_id binding_hero) (regexes host_worldbook_gone) = Some rule_foo
   \<and> getBindingLiveState binding_hero host_worldbook_gone
       = Inr \<lparr>worldbook_enabled = None, regex_enabled = Some True\<rparr>"
  by (simp add: setBindingEnabled_def updates_unreadable getBindingLiveState_def getWorldbook_def
      getRegexById_def getTavernRegexes_def example_defs ascii_simps)

text \<open>
  C9. A call whose rule update matched (\<open>regexMatched\<close> is set) completes without error,
  and every rule with the binding's \<open>regex_id\<close> gets the requested \<open>enabled\<close> value and the
  name \<open>ensureRegexPrefix\<close> of its old name, whatever its \<open>enabled\<close> value was before.
\<close>

theorem toggle_repairs_name:
  assumes "fst (setBindingEnabled_updates b en h) = Inr (worldbookMatched, True)"
  shows "fst (setBindingEnabled b en h) = Inr ()
       \<and> snd (setBindingEnabled b en h) = snd (setBindingEnabled_updates b en h)
       \<and> (\<exists>k<length (regexes h). id_regex (regexes h ! k) = regex_id b)
       \<and> length (regexes (snd (setBindingEnabled b en h))) = length (regexes h)
       \<and> (\<forall>k<length (regexes h). id_regex (regexes h ! k) = regex_id b \<longrightarrow>
             regexes (snd (setBindingEnabled b en h)) ! k =
               (regexes h ! k)\<lparr>enabled_regex := en,
                               script_name := ensureRegexPrefix (script_name (regexes h ! k))\<rparr>)"
proof (cases "worldbooks h (worldbook_name b)")
  case None
  with assms show ?thesis by (simp add: updates_unreadable)
next
  case (Some es)
  from assms have m: "\<exists>r\<in>set (regexes h). id_regex r = regex_id b"
    by (simp add: updates_readable [OF Some])
  then have 1: "\<exists>k<length (regexes h). id_regex (regexes h ! k) = regex_id b"
    by (metis in_set_conv_nth)
  from m show ?thesis using 1
    by (simp add: setBindingEnabled_def updates_readable [OF Some])
qed

theorem toggle_repairs_name_witness:
  "fst (setBindingEnabled_updates binding_hero True host_live) = Inr (True, True)
   \<and> fst (setBindingEnabled binding_hero True host_live) = Inr ()
   \<and> enabled_regex (regexes host_live ! 1) = True
   \<and> regexes (snd (setBindingEnabled binding_hero True host_live)) ! 1
       = rule_foo\<lparr>script_name := REGEX_PREFIX @ ascii ''Foo''\<rparr>"
proof -
  have wb: "worldbooks host_live (worldbook_name binding_hero) = Some [entry_hero, entry_other]"
    by (simp add: example_defs)
  have run: "fst (setBindingEnabled_updates binding_hero True host_live) = Inr (True, True)"
    by (simp add: updates_readable [OF wb]) (simp add: example_defs ascii_simps)
  have foo: "ensureRegexPrefix (script_name rule_foo) = REGEX_PREFIX @ ascii ''Foo''"
    by (simp add: rule_foo_def ensureRegexPrefix_def startsWith_def REGEX_PREFIX_def ascii_simps)
  have r1: "regexes host_live ! 1 = rule_foo" "(1::nat) < length (regexes host_live)"
    "id_regex rule_foo = regex_id binding_hero" "enabled_regex rule_foo = True"
    by (simp_all add: example_defs)
  note t = toggle_repairs_name [OF run]
  from t have ok: "fst (setBindingEnabled binding_hero True host_live) = Inr ()"
    by (rule conjunct1)
  from t have "\<forall>k<length (regexes host_live). id_regex (regexes host_live ! k) = regex_id binding_hero \<longrightarrow>
             regexes (snd (setBindingEnabled binding_hero True host_live)) ! k =
               (regexes host_live ! k)\<lparr>enabled_regex := True,
                  script_name := ensureRegexPrefix (script_name (regexes host_live ! k))\<rparr>"
    by blast
  from this [rule_format, OF r1(2)] r1 foo
  have "regexes (snd (setBindingEnabled binding_hero True host_live)) ! 1
          = rule_foo\<lparr>enabled_regex := True, script_name := REGEX_PREFIX @ ascii ''Foo''\<rparr>"
    by simp
  also have "\<dots> = rule_foo\<lparr>script_name := REGEX_PREFIX @ ascii ''Foo''\<rparr>"
    by (simp add: rule_foo_def)
  finally show ?thesis using run ok r1 by simp
qed

text \<open>
  C10. Whatever the outcome of \<open>setBindingEnabled\<close>: the registry and the log of saves are
  as before; every other worldbook is as before; in the binding's worldbook each entry
  whose uid differs from the binding's is unchanged, in place; each rule whose id
  differs from the binding's \<open>regex_id\<close> is unchanged, in place.
\<close>

theorem toggle_frame:
  "bindings (snd (setBindingEnabled b en h)) = bindings h
   \<and> saves (snd (setBindingEnabled b en h)) = saves h
   \<and> (\<forall>wb. wb \<noteq> worldbook_name b \<longrightarrow>
         worldbooks (snd (setBindingEnabled b en h)) wb = worldbooks h wb)
   \<and> rel_option (list_all2 (\<lambda>e e'. uid e \<noteq> worldbook_entry_uid b \<longrightarrow> e' = e))
        (worldbooks h (worldbook_name b))
        (worldbooks (snd (setBindingEnabled b en h)) (worldbook_name b))
   \<and> list_all2 (\<lambda>x x'. id_regex x \<noteq> regex_id b \<longrightarrow> x' = x)
        (regexes h) (regexes (snd (setBindingEnabled b en h)))"
proof (cases "worldbooks h (worldbook_name b)")
  case None
  then have "snd (setBindingEnabled b en h) = h"
    by (simp add: setBindingEnabled_def updates_unreadable)
  then show ?thesis using None by (simp add: list_all2_same)
next
  case (Some es)
  have h': "snd (setBindingEnabled b en h) = h\<lparr>worldbooks := (worldbooks h)(worldbook_name b \<mapsto>
            map (\<lambda>e. if uid e = worldbook_entry_uid b then e\<lparr>enabled_entry := en\<rparr> else e) es),
        regexes := map (\<lambda>r. if id_regex r = regex_id b
                then r\<lparr>enabled_regex := en, script_name := ensureRegexPrefix (script_name r)\<rparr>
                else r) (regexes h)\<rparr>"
    by (simp add: setBindingEnabled_def updates_readable [OF Some])
  show ?thesis
    by (simp add: h' Some list_all2_map2 list_all2_same)
qed

theorem toggle_frame_witness:
  "bindings (snd (setBindingEnabled binding_hero True host_live)) = [binding_hero]
   \<and> saves (snd (setBindingEnabled binding_hero True host_live)) = []
   \<and> worldbooks (snd (setBindingEnabled binding_hero True host_live)) (ascii ''Lore'')
       = Some [entry_hero\<lparr>enabled_entry := True\<rparr>, entry_other]
   \<and> worldbooks (snd (setBindingEnabled binding_hero True host_live)) (ascii ''Other'') = None
   \<and> regexes (snd (setBindingEnabled binding_hero True host_live)) ! 0 = rule_old"
proof -
  have wb: "worldbooks host_live (worldbook_name binding_hero) = Some [entry_hero, entry_other]"
    by (simp add: example_defs)
  have h': "snd (setBindingEnabled binding_hero True host_live) =
      host_live\<lparr>worldbooks := (worldbooks host_live)(ascii ''Lore'' \<mapsto> [entry_hero\<lparr>enabled_entry := True\<rparr>, entry_other]),
                regexes := [rule_old, rule_foo\<lparr>enabled_regex := True,
                              script_name := ensureRegexPrefix (script_name rule_foo)\<rparr>]\<rparr>"
    by (simp add: setBindingEnabled_def updates_readable [OF wb]) (simp add: example_defs ascii_simps)
  from toggle_frame [of binding_hero True host_live] show ?thesis
    by (simp add: h') (simp add: example_defs ascii_simps)
qed

section \<open>Binding registry: properties\<close>

lemma find_duplicate_None:
  "find (\<lambda>binding. worldbook_name binding = n \<and> worldbook_entry_uid binding = u \<and> regex_id binding = r) bs = None
   \<longleftrightarrow> (n, u, r) \<notin> set (map binding_key bs)"
  by (auto simp: find_None_iff binding_key_def)

lemma find_regex_id: "find (\<lambda>x. id_regex x = r) M = Some regex \<Longrightarrow> id_regex regex = r"
  by (auto simp: find_Some_iff)

lemma find_entry_uid: "find (\<lambda>x. uid x = u) es = Some e \<Longrightarrow> uid e = u"
  by (auto simp: find_Some_iff)

lemma binding_key_new [simp]:
  "binding_key (new_binding f t n e r) = (n, uid e, id_regex r)"
  by (simp add: binding_key_def new_binding_def)

lemma inner_frame:
  "create_for_regexes n u e M rs (h, c) = (h', c') \<Longrightarrow>
   worldbooks h' = worldbooks h \<and> regexes h' = regexes h \<and> saves h' = saves h \<and> uuids h' = uuids h"
  by (induction rs arbitrary: h c) (auto split: option.splits)

lemma inner_keys:
  "uid e = u \<Longrightarrow> create_for_regexes n u e M rs (h, c) = (h', c') \<Longrightarrow>
   set (map binding_key (bindings h')) =
     set (map binding_key (bindings h)) \<union> {(n, u, r) | r. r \<in> set rs \<and> find (\<lambda>x. id_regex x = r) M \<noteq> None}"
proof (induction rs arbitrary: h c)
  case Nil
  then show ?case by simp
next
  case (Cons r rs)
  show ?case
  proof (cases "find (\<lambda>regexItem. id_regex regexItem = r) M")
    case None
    with Cons.prems have "create_for_regexes n u e M rs (h, c) = (h', c')" by simp
    from Cons.IH [OF Cons.prems(1) this] None show ?thesis by auto
  next
    case (Some regex)
    note rg = Some
    show ?thesis
    proof (cases "find (\<lambda>binding. worldbook_name binding = n \<and> worldbook_entry_uid binding = u
                                \<and> regex_id binding = r) (bindings h)")
      case None
      from Cons.prems(2) rg None
      have run: "create_for_regexes n u e M rs
                 (h\<lparr>bindings := bindings h @ [new_binding (uuids h (uuid_count h)) (number_text h) n e regex],
                    uuid_count := Suc (uuid_count h)\<rparr>, c + 1) = (h', c')"
        by simp
      from Cons.IH [OF Cons.prems(1) run]
      show ?thesis using rg find_regex_id [OF rg] Cons.prems(1) by auto
    next
      case (Some dup)
      with Cons.prems(2) rg have run: "create_for_regexes n u e M rs (h, c) = (h', c')"
        by simp
      from Some have "(n, u, r) \<in> set (map binding_key (bindings h))"
        using find_duplicate_None [of n u r "bindings h"] by simp
      with Cons.IH [OF Cons.prems(1) run] rg show ?thesis by auto
    qed
  qed
qed

lemma inner_distinct:
  "uid e = u \<Longrightarrow> unique_tuples (bindings h) \<Longrightarrow>
   unique_tuples (bindings (fst (create_for_regexes n u e M rs (h, c))))"
proof (induction rs arbitrary: h c)
  case Nil
  then show ?case by simp
next
  case (Cons r rs)
  show ?case
  proof (cases "find (\<lambda>regexItem. id_regex regexItem = r) M")
    case None
    with Cons show ?thesis by simp
  next
    case (Some regex)
    note rg = Some
    show ?thesis
    proof (cases "find (\<lambda>binding. worldbook_name binding = n \<and> worldbook_entry_uid binding = u
                                \<and> regex_id binding = r) (bindings h)")
      case None
      then have "(n, u, r) \<notin> set (map binding_key (bindings h))"
        using find_duplicate_None [of n u r "bindings h"] by simp
      with Cons.prems find_regex_id [OF rg]
      have "unique_tuples (bindings (h\<lparr>bindings := bindings h @ [new_binding (uuids h (uuid_count h)) (number_text h) n e regex],
                    uuid_count := Suc (uuid_count h)\<rparr>))"
        by (simp add: unique_tuples_def)
      from Cons.IH [OF Cons.prems(1) this] rg None show ?thesis by simp
    next
      case (Some dup)
      from Cons.IH [OF Cons.prems] rg Some show ?thesis by simp
    qed
  qed
qed

lemma inner_noop:
  "\<forall>r\<in>set rs. find (\<lambda>x. id_regex x = r) M \<noteq> None \<longrightarrow> (n, u, r) \<in> set (map binding_key (bindings h)) \<Longrightarrow>
   create_for_regexes n u e M rs (h, c) = (h, c)"
proof (induction rs)
  case Nil
  then show ?case by simp
next
  case (Cons r rs)
  show ?case
  proof (cases "find (\<lambda>x. id_regex x = r) M")
    case None
    with Cons show ?thesis by simp
  next
    case (Some regex)
    with Cons.prems have "(n, u, r) \<in> set (map binding_key (bindings h))" by simp
    then obtain dup where "find (\<lambda>binding. worldbook_name binding = n \<and> worldbook_entry_uid binding = u
                                \<and> regex_id binding = r) (bindings h) = Some dup"
      using find_duplicate_None [of n u r "bindings h"] by (cases "find (\<lambda>binding. worldbook_name binding = n \<and> worldbook_entry_uid binding = u
                                \<and> regex_id binding = r) (bindings h)") auto
    with Some Cons show ?thesis by simp
  qed
qed


lemma covered_cong:
  "worldbooks h' = worldbooks h \<Longrightarrow>
   set (map binding_key (bindings h)) \<subseteq> set (map binding_key (bindings h')) \<Longrightarrow>
   covered h M rs w \<Longrightarrow> covered h' M rs w"
  unfolding covered_def list_all_iff
  by (cases "worldbooks h (fst w)"; cases "find (\<lambda>x. uid x = snd w) (the (worldbooks h (fst w)))")
     (simp_all, blast)

lemma inner_mono:
  "create_for_regexes n u e M rs (h, c) = (h', c') \<Longrightarrow>
   set (map binding_key (bindings h)) \<subseteq> set (map binding_key (bindings h'))"
proof (induction rs arbitrary: h c)
  case Nil
  then show ?case by simp
next
  case (Cons r rs)
  show ?case
  proof (cases "find (\<lambda>regexItem. id_regex regexItem = r) M")
    case None
    with Cons.prems have "create_for_regexes n u e M rs (h, c) = (h', c')" by simp
    from Cons.IH [OF this] show ?thesis .
  next
    case (Some regex)
    note rg = Some
    show ?thesis
    proof (cases "find (\<lambda>binding. worldbook_name binding = n \<and> worldbook_entry_uid binding = u
                                \<and> regex_id binding = r) (bindings h)")
      case None
      from Cons.prems rg None
      have run: "create_for_regexes n u e M rs
                 (h\<lparr>bindings := bindings h @ [new_binding (uuids h (uuid_count h)) (number_text h) n e regex],
                    uuid_count := Suc (uuid_count h)\<rparr>, c + 1) = (h', c')"
        by simp
      from Cons.IH [OF run] show ?thesis by auto
    next
      case (Some dup)
      with Cons.prems rg have "create_for_regexes n u e M rs (h, c) = (h', c')" by simp
      from Cons.IH [OF this] show ?thesis .
    qed
  qed
qed

lemma outer_frame:
  "create_for_worldbooks M rs ws (h, c) = (r, h') \<Longrightarrow>
   worldbooks h' = worldbooks h \<and> regexes h' = regexes h \<and> saves h' = saves h \<and> uuids h' = uuids h"
proof (induction ws arbitrary: h c)
  case Nil
  then show ?case by simp
next
  case (Cons w ws)
  obtain n u where w: "w = (n, u)" by (cases w)
  show ?case
  proof (cases "worldbooks h n")
    case None
    with Cons.prems w show ?thesis by (simp add: getWorldbook_def)
  next
    case (Some es)
    show ?thesis
    proof (cases "find (\<lambda>x. uid x = u) es")
      case None
      with Cons.prems w Some have "create_for_worldbooks M rs ws (h, c) = (r, h')"
        by (simp add: getWorldbook_def)
      from Cons.IH [OF this] show ?thesis .
    next
      case (Some e)
      obtain h1 c1 where in1: "create_for_regexes n u e M rs (h, c) = (h1, c1)"
        by (cases "create_for_regexes n u e M rs (h, c)")
      with Cons.prems w \<open>worldbooks h n = Some es\<close> Some
      have "create_for_worldbooks M rs ws (h1, c1) = (r, h')"
        by (simp add: getWorldbook_def)
      from Cons.IH [OF this] inner_frame [OF in1] show ?thesis by simp
    qed
  qed
qed

lemma outer_mono:
  "create_for_worldbooks M rs ws (h, c) = (r, h') \<Longrightarrow>
   set (map binding_key (bindings h)) \<subseteq> set (map binding_key (bindings h'))"
proof (induction ws arbitrary: h c)
  case Nil
  then show ?case by simp
next
  case (Cons w ws)
  obtain n u where w: "w = (n, u)" by (cases w)
  show ?case
  proof (cases "worldbooks h n")
    case None
    with Cons.prems w show ?thesis by (simp add: getWorldbook_def)
  next
    case (Some es)
    show ?thesis
    proof (cases "find (\<lambda>x. uid x = u) es")
      case None
      with Cons.prems w Some have "create_for_worldbooks M rs ws (h, c) = (r, h')"
        by (simp add: getWorldbook_def)
      from Cons.IH [OF this] show ?thesis .
    next
      case (Some e)
      obtain h1 c1 where in1: "create_for_regexes n u e M rs (h, c) = (h1, c1)"
        by (cases "create_for_regexes n u e M rs (h, c)")
      with Cons.prems w \<open>worldbooks h n = Some es\<close> Some
      have "create_for_worldbooks M rs ws (h1, c1) = (r, h')"
        by (simp add: getWorldbook_def)
      from Cons.IH [OF this] inner_mono [OF in1] show ?thesis by blast
    qed
  qed
qed

lemma outer_distinct:
  "unique_tuples (bindings h) \<Longrightarrow>
   unique_tuples (bindings (snd (create_for_worldbooks M rs ws (h, c))))"
proof (induction ws arbitrary: h c)
  case Nil
  then show ?case by simp
next
  case (Cons w ws)
  obtain n u where w: "w = (n, u)" by (cases w)
  show ?case
  proof (cases "worldbooks h n")
    case None
    with Cons.prems w show ?thesis by (simp add: getWorldbook_def)
  next
    case (Some es)
    show ?thesis
    proof (cases "find (\<lambda>x. uid x = u) es")
      case None
      with Cons w Some show ?thesis by (simp add: getWorldbook_def)
    next
      case (Some e)
      obtain h1 c1 where in1: "create_for_regexes n u e M rs (h, c) = (h1, c1)"
        by (cases "create_for_regexes n u e M rs (h, c)")
      from inner_distinct [OF find_entry_uid [OF Some] Cons.prems, of n M rs c] in1
      have "unique_tuples (bindings h1)" by simp
      from Cons.IH [OF this, of c1] w \<open>worldbooks h n = Some es\<close> Some in1
      show ?thesis by (simp add: getWorldbook_def)
    qed
  qed
qed

lemma outer_covered:
  "create_for_worldbooks M rs ws (h, c) = (Inr c', h') \<Longrightarrow> list_all (covered h' M rs) ws"
proof (induction ws arbitrary: h c)
  case Nil
  then show ?case by simp
next
  case (Cons w ws)
  obtain n u where w: "w = (n, u)" by (cases w)
  note fr = outer_frame [OF Cons.prems]
  show ?case
  proof (cases "worldbooks h n")
    case None
    with Cons.prems w show ?thesis by (simp add: getWorldbook_def)
  next
    case (Some es)
    note wb = Some
    show ?thesis
    proof (cases "find (\<lambda>x. uid x = u) es")
      case None
      with Cons.prems w wb have "create_for_worldbooks M rs ws (h, c) = (Inr c', h')"
        by (simp add: getWorldbook_def)
      from Cons.IH [OF this] have "list_all (covered h' M rs) ws" .
      moreover have "covered h' M rs w"
        using fr wb None w by (simp add: covered_def)
      ultimately show ?thesis by simp
    next
      case (Some e)
      obtain h1 c1 where in1: "create_for_regexes n u e M rs (h, c) = (h1, c1)"
        by (cases "create_for_regexes n u e M rs (h, c)")
      with Cons.prems w wb Some
      have run: "create_for_worldbooks M rs ws (h1, c1) = (Inr c', h')"
        by (simp add: getWorldbook_def)
      from Cons.IH [OF run] have rest: "list_all (covered h' M rs) ws" .
      have "covered h1 M rs w"
        using inner_keys [OF find_entry_uid [OF Some] in1] inner_frame [OF in1] wb Some w
        by (auto simp: covered_def list_all_iff)
      then have "covered h' M rs w"
        using outer_frame [OF run] outer_mono [OF run] covered_cong [of h' h1 M rs w] by simp
      with rest show ?thesis by simp
    qed
  qed
qed

lemma outer_noop:
  "list_all (covered h M rs) ws \<Longrightarrow> create_for_worldbooks M rs ws (h, c) = (Inr c, h)"
proof (induction ws)
  case Nil
  then show ?case by simp
next
  case (Cons w ws)
  obtain n u where w: "w = (n, u)" by (cases w)
  from Cons.prems have cw: "covered h M rs w" and rest: "list_all (covered h M rs) ws" by simp_all
  from cw w obtain es where wb: "worldbooks h n = Some es"
    by (auto simp: covered_def split: option.splits)
  show ?case
  proof (cases "find (\<lambda>x. uid x = u) es")
    case None
    with w wb Cons.IH [OF rest] show ?thesis by (simp add: getWorldbook_def)
  next
    case (Some e)
    from cw w wb Some
    have "\<forall>r\<in>set rs. find (\<lambda>x. id_regex x = r) M \<noteq> None \<longrightarrow> (n, u, r) \<in> set (map binding_key (bindings h))"
      by (auto simp: covered_def list_all_iff)
    from inner_noop [OF this] w wb Some Cons.IH [OF rest] show ?thesis
      by (simp add: getWorldbook_def)
  qed
qed


lemma set_label_keys: "map binding_key (set_label i l bs) = map binding_key bs"
  by (induction bs) (auto simp: binding_key_def)

lemma create_preserves_unique:
  "unique_tuples (bindings h) \<Longrightarrow>
   unique_tuples (bindings (snd (createBindingFromSelection wsel rsel h)))"
  using outer_distinct [of h "getManagedRegexes h" "filter (\<lambda>item. length item > 0) rsel"
      "valid_worldbook_selections wsel" 0]
  by (auto simp: createBindingFromSelection_def Let_def saveSettings_def split: prod.splits sum.splits)

lemma delete_preserves_unique:
  "unique_tuples (bindings h) \<Longrightarrow> unique_tuples (bindings (deleteBinding i h))"
  by (simp add: deleteBinding_def saveSettings_def unique_tuples_def distinct_map_filter)

lemma rename_preserves_unique:
  "unique_tuples (bindings h) \<Longrightarrow> unique_tuples (bindings (renameStyle i p h))"
  by (simp add: renameStyle_def saveSettings_def unique_tuples_def set_label_keys split: option.splits)

lemma toggle_keeps_bindings: "bindings (snd (setBindingEnabled b en h)) = bindings h"
  by (cases "worldbooks h (worldbook_name b)")
     (simp_all add: setBindingEnabled_def updates_unreadable updates_readable)

lemma import_keeps_bindings: "bindings (snd (importRegexFromFile input h)) = bindings h"
  by (auto simp: importRegexFromFile_def Let_def updateTavernRegexesWith_def
      split: file_input.splits prod.splits)

lemma create_again_creates_nothing:
  assumes "createBindingFromSelection wsel rsel h = (Inr out, h1)"
  shows "\<exists>out2. createBindingFromSelection wsel rsel h1 = (Inr out2, h1) \<and> created_count out2 = 0"
proof (cases "valid_worldbook_selections wsel = [] \<or> filter (\<lambda>item. length item > 0) rsel = []")
  case True
  with assms have "h1 = h" by (auto simp: createBindingFromSelection_def)
  with True show ?thesis by (auto simp: createBindingFromSelection_def)
next
  case False
  let ?M = "getManagedRegexes h" and ?rs = "filter (\<lambda>item. length item > 0) rsel"
    and ?ws = "valid_worldbook_selections wsel"
  obtain r h' where run: "create_for_worldbooks ?M ?rs ?ws (h, 0) = (r, h')"
    by (cases "create_for_worldbooks ?M ?rs ?ws (h, 0)")
  with assms False obtain c where r: "r = Inr c" and h1: "h1 = h' \<or> h1 = saveSettings h'"
    by (auto simp: createBindingFromSelection_def Let_def split: sum.splits if_splits)
  from run r have cov: "list_all (covered h' ?M ?rs) ?ws" by (simp add: outer_covered)
  from outer_frame [OF run] h1 have fr: "worldbooks h1 = worldbooks h'" "regexes h1 = regexes h"
    "bindings h1 = bindings h'"
    by (auto simp: saveSettings_def)
  have "\<And>w. covered h' ?M ?rs w \<Longrightarrow> covered h1 ?M ?rs w"
    by (rule covered_cong) (simp_all add: fr)
  with cov have "list_all (covered h1 ?M ?rs) ?ws" by (simp add: list_all_iff)
  from outer_noop [OF this, of 0] have "create_for_worldbooks ?M ?rs ?ws (h1, 0) = (Inr 0, h1)" .
  moreover have "getManagedRegexes h1 = ?M"
    by (simp add: getManagedRegexes_def getTavernRegexes_def fr)
  ultimately have "createBindingFromSelection wsel rsel h1 = (Inr NothingCreated, h1)"
    using False by (simp add: createBindingFromSelection_def)
  then show ?thesis by simp
qed

lemma create_once:
  assumes "n \<noteq> []" "r \<noteq> []" "worldbooks h n = Some es" "find (\<lambda>x. uid x = u) es = Some e"
    "find (\<lambda>x. id_regex x = r) (getManagedRegexes h) = Some regex"
    "(n, u, r) \<notin> set (map binding_key (bindings h))"
  shows "createBindingFromSelection [\<lparr>worldbookName = n, entryUid = Some u\<rparr>] [r] h =
           (Inr (Created 1),
            saveSettings (h\<lparr>bindings := bindings h @ [new_binding (uuids h (uuid_count h)) (number_text h) n e regex],
                            uuid_count := Suc (uuid_count h)\<rparr>))"
proof -
  from assms(6) have "find (\<lambda>binding. worldbook_name binding = n \<and> worldbook_entry_uid binding = u
                                \<and> regex_id binding = r) (bindings h) = None"
    using find_duplicate_None [of n u r "bindings h"] by simp
  with assms show ?thesis
    by (simp add: createBindingFromSelection_def valid_worldbook_selections_def getWorldbook_def)
qed

text \<open>
  C3. Creation, deletion and renaming keep the tuples
  \<open>(worldbook_name, worldbook_entry_uid, regex_id)\<close> of the registry pairwise different,
  also when creation is cut short by an exception; toggling and importing leave the
  registry as it is. A creation that has completed, run
  again with the same selections on the state it left, finds every combination either
  unresolved or already present: it creates nothing and leaves the state as it is. A
  single fresh combination that resolves is created once (\<open>createdCount\<close> 1) and then
  skipped (\<open>createdCount\<close> 0).
\<close>

theorem registry_tuples_unique:
  "(unique_tuples (bindings h) \<longrightarrow>
      unique_tuples (bindings (snd (createBindingFromSelection wsel rsel h)))
      \<and> unique_tuples (bindings (deleteBinding i h))
      \<and> unique_tuples (bindings (renameStyle i p h))
      \<and> unique_tuples (bindings (snd (setBindingEnabled b en h)))
      \<and> unique_tuples (bindings (snd (importRegexFromFile input h))))
   \<and> (createBindingFromSelection wsel rsel h = (Inr out, h1) \<longrightarrow>
        (\<exists>out2. createBindingFromSelection wsel rsel h1 = (Inr out2, h1) \<and> created_count out2 = 0))
   \<and> (n \<noteq> [] \<and> r \<noteq> [] \<and> worldbooks h n = Some es \<and> find (\<lambda>x. uid x = u) es = Some e
        \<and> find (\<lambda>x. id_regex x = r) (getManagedRegexes h) = Some regex
        \<and> (n, u, r) \<notin> set (map binding_key (bindings h)) \<longrightarrow>
        (\<exists>h2. createBindingFromSelection [\<lparr>worldbookName = n, entryUid = Some u\<rparr>] [r] h
                 = (Inr (Created 1), h2)
             \<and> createBindingFromSelection [\<lparr>worldbookName = n, entryUid = Some u\<rparr>] [r] h2
                 = (Inr NothingCreated, h2)))"
proof (intro conjI impI)
  assume "unique_tuples (bindings h)"
  then show "unique_tuples (bindings (snd (createBindingFromSelection wsel rsel h)))"
    and "unique_tuples (bindings (deleteBinding i h))"
    and "unique_tuples (bindings (renameStyle i p h))"
    and "unique_tuples (bindings (snd (setBindingEnabled b en h)))"
    and "unique_tuples (bindings (snd (importRegexFromFile input h)))"
    by (simp_all add: create_preserves_unique delete_preserves_unique rename_preserves_unique
        toggle_keeps_bindings import_keeps_bindings)
next
  assume "createBindingFromSelection wsel rsel h = (Inr out, h1)"
  then show "\<exists>out2. createBindingFromSelection wsel rsel h1 = (Inr out2, h1) \<and> created_count out2 = 0"
    by (rule create_again_creates_nothing)
next
  let ?sel = "[\<lparr>worldbookName = n, entryUid = Some u\<rparr>]"
  assume a: "n \<noteq> [] \<and> r \<noteq> [] \<and> worldbooks h n = Some es \<and> find (\<lambda>x. uid x = u) es = Some e
        \<and> find (\<lambda>x. id_regex x = r) (getManagedRegexes h) = Some regex
        \<and> (n, u, r) \<notin> set (map binding_key (bindings h))"
  then obtain h2 where first: "createBindingFromSelection ?sel [r] h = (Inr (Created 1), h2)"
    using create_once [of n r h es u e regex] by blast
  from create_again_creates_nothing [OF first]
  obtain out2 where second: "createBindingFromSelection ?sel [r] h2 = (Inr out2, h2)"
    and "created_count out2 = 0"
    by blast
  moreover from a have "valid_worldbook_selections ?sel \<noteq> []" "filter (\<lambda>item. length item > 0) [r] \<noteq> []"
    by (simp_all add: valid_worldbook_selections_def)
  ultimately have "out2 = NothingCreated"
    by (auto simp: createBindingFromSelection_def Let_def split: sum.splits if_splits prod.splits)
  with first second show "\<exists>h2. createBindingFromSelection ?sel [r] h
                 = (Inr (Created 1), h2)
             \<and> createBindingFromSelection ?sel [r] h2 = (Inr NothingCreated, h2)"
    by blast
qed

theorem registry_tuples_unique_witness:
  "unique_tuples (bindings host_start)
   \<and> unique_tuples (bindings (snd (createBindingFromSelection
         [\<lparr>worldbookName = ascii ''Lore'', entryUid = Some 7\<rparr>] [ascii ''r0''] host_start)))
   \<and> fst (createBindingFromSelection
         [\<lparr>worldbookName = ascii ''Lore'', entryUid = Some 7\<rparr>] [ascii ''r0''] host_start)
       = Inr (Created 1)
   \<and> fst (createBindingFromSelection
         [\<lparr>worldbookName = ascii ''Lore'', entryUid = Some 7\<rparr>] [ascii ''r0'']
         (snd (createBindingFromSelection
            [\<lparr>worldbookName = ascii ''Lore'', entryUid = Some 7\<rparr>] [ascii ''r0''] host_start)))
       = Inr NothingCreated"
proof -
  let ?sel = "[\<lparr>worldbookName = ascii ''Lore'', entryUid = Some 7\<rparr>]"
  note t = registry_tuples_unique [where h = host_start and wsel = ?sel and rsel = "[ascii ''r0'']"
      and n = "ascii ''Lore''" and r = "ascii ''r0''" and es = "[entry_hero, entry_other]"
      and u = 7 and e = entry_hero and regex = rule_old]
  have u: "unique_tuples (bindings host_start)"
    by (simp add: unique_tuples_def host_start_def)
  have hyp: "ascii ''Lore'' \<noteq> [] \<and> ascii ''r0'' \<noteq> []
      \<and> worldbooks host_start (ascii ''Lore'') = Some [entry_hero, entry_other]
      \<and> find (\<lambda>x. uid x = 7) [entry_hero, entry_other] = Some entry_hero
      \<and> find (\<lambda>x. id_regex x = ascii ''r0'') (getManagedRegexes host_start) = Some rule_old
      \<and> (ascii ''Lore'', 7, ascii ''r0'') \<notin> set (map binding_key (bindings host_start))"
    by (simp add: example_defs ascii_simps getManagedRegexes_def getTavernRegexes_def
        startsWith_def REGEX_PREFIX_def)
  from t u have 1: "unique_tuples (bindings (snd (createBindingFromSelection ?sel [ascii ''r0''] host_start)))"
    by blast
  from t hyp obtain h2 where
    "createBindingFromSelection ?sel [ascii ''r0''] host_start = (Inr (Created 1), h2)"
    "createBindingFromSelection ?sel [ascii ''r0''] h2 = (Inr NothingCreated, h2)"
    by blast
  with u 1 show ?thesis by simp
qed

end
